theory Spec2Isabelle
  imports Main "HOL-Library.Word"
begin

section \<open>Common ground: values, revert reasons, events\<close>

text \<open>
  The three ledgers are the Solidity contracts \<^verbatim>\<open>OGStorage\<close> (file registry),
  \<^verbatim>\<open>OGRegistry\<close> (user registry) and \<^verbatim>\<open>OGFees\<close> (fee ledger). An
  \<^verbatim>\<open>address\<close> is a 160-bit word, \<^verbatim>\<open>uint256\<close> and \<^verbatim>\<open>bytes32\<close> are 256-bit
  words. A call that reverts is a value \<open>Inl reason\<close>: the EVM discards every effect of a
  reverted call, so the state after it is the state before it. A call that returns is
  \<open>Inr\<close> of the new state (and of the returned value, when there is one).
  \<^verbatim>\<open>msg.sender\<close>, \<^verbatim>\<open>block.timestamp\<close> and \<^verbatim>\<open>msg.value\<close> are explicit arguments.
\<close>

type_synonym address = "160 word"
type_synonym uint256 = "256 word"
type_synonym bytes32 = "256 word"

text \<open>
  The role tags are the constants \<^verbatim>\<open>keccak256("ADMIN_ROLE")\<close> and so on, and the
  library's \<^verbatim>\<open>DEFAULT_ADMIN_ROLE = 0x00\<close>; they are pairwise different, which is all
  the contracts use of them.
\<close>

datatype role = DEFAULT_ADMIN_ROLE | ADMIN_ROLE | OPERATOR_ROLE | VERIFIER_ROLE | FEE_MANAGER_ROLE

text \<open>One constructor for each revert reason of the three contracts and of the library
  code they inherit; \<open>Panic_arithmetic\<close> is the panic 0x11 of Solidity 0.8 checked
  arithmetic.\<close>

datatype error =
    Pausable_paused
  | Pausable_not_paused
  | AccessControl_missing_role address role
  | AccessControl_renounce_not_self
  | Counter_decrement_overflow
  | Panic_arithmetic
  | Root_hash_cannot_be_empty
  | File_already_exists
  | File_does_not_exist
  | Not_file_owner
  | Invalid_address
  | Already_shared_with_user
  | Not_shared_with_user
  | No_access_to_file
  | User_already_registered
  | Username_cannot_be_empty
  | Username_already_taken
  | User_not_registered
  | Username_not_registered
  | Storage_limit_exceeded
  | New_limit_below_used_storage
  | Invalid_treasury_address
  | Invalid_discount_percentage
  | Insufficient_fee
  | Failed_to_return_excess_fee
  | No_fees_to_distribute
  | Failed_to_distribute_fees
  | Already_a_discounted_user
  | Not_a_discounted_user

datatype event =
    Paused address
  | Unpaused address
  | RoleGranted role address address
  | RoleRevoked role address address
  | FileUploaded bytes32 string address
  | FileShared bytes32 address address
  | FileUnshared bytes32 address address
  | FileDeleted bytes32 address
  | UserRegistered address string
  | StorageLimitUpdated address uint256
  | UsedStorageUpdated address uint256
  | DefaultStorageLimitUpdated uint256
  | FeeConfigUpdated uint256 uint256 uint256 uint256
  | TreasuryUpdated address address
  | DiscountedUserAdded address
  | DiscountedUserRemoved address
  | DiscountPercentageUpdated uint256 uint256
  | FeeCollected address uint256 string
  | FeeDistributed address nat

text \<open>The state a transaction leaves behind: the old state when the call reverted.\<close>

definition state_after :: "'s \<Rightarrow> error + 's \<Rightarrow> 's" where
  "state_after s r = (case r of Inl e \<Rightarrow> s | Inr s' \<Rightarrow> s')"

section \<open>The access gate: pause switch and roles\<close>

text \<open>
  Every contract inherits \<^verbatim>\<open>PausableUpgradeable\<close> and \<^verbatim>\<open>AccessControlUpgradeable\<close>
  of OpenZeppelin 4.x (the imports under \<^verbatim>\<open>security/\<close> and \<^verbatim>\<open>access/\<close>). The library
  is a dependency and not part of the sources; its state and its functions are modelled
  here as the library defines them: \<^verbatim>\<open>_paused\<close>, \<^verbatim>\<open>_roles[role].members[account]\<close>,
  the modifiers \<^verbatim>\<open>whenNotPaused\<close> (reverting with "Pausable: paused"),
  \<^verbatim>\<open>whenPaused\<close> and \<^verbatim>\<open>onlyRole\<close>, and \<^verbatim>\<open>grantRole\<close>, \<^verbatim>\<open>revokeRole\<close> and
  \<^verbatim>\<open>renounceRole\<close>; \<open>grantRole_internal\<close> and \<open>revokeRole_internal\<close> are the
  library's \<^verbatim>\<open>_grantRole\<close> and \<^verbatim>\<open>_revokeRole\<close>. No contract calls
  \<^verbatim>\<open>_setRoleAdmin\<close>, so the admin role of every role is \<^verbatim>\<open>DEFAULT_ADMIN_ROLE\<close>.
  Each contract has its own copy of this state, which the record extension below mirrors.
  The event log is the list of events emitted so far, oldest first; the events of the
  initializer and proxy machinery are left out. Replacing the implementation through the
  proxy (\<^verbatim>\<open>_authorizeUpgrade\<close>) is outside the model: a reachable state is one reached
  by calls of the functions of these three contracts.
\<close>

record access_gate =
  paused :: bool
  roles :: "role \<Rightarrow> address \<Rightarrow> bool"
  log :: "event list"

definition hasRole :: "'a access_gate_scheme \<Rightarrow> role \<Rightarrow> address \<Rightarrow> bool" where
  "hasRole s r account = roles s r account"

definition emit :: "event \<Rightarrow> 'a access_gate_scheme \<Rightarrow> 'a access_gate_scheme" where
  "emit ev s = s\<lparr>log := log s @ [ev]\<rparr>"

definition grantRole_internal :: "address \<Rightarrow> role \<Rightarrow> address \<Rightarrow> 'a access_gate_scheme \<Rightarrow> 'a access_gate_scheme" where
  "grantRole_internal sender r account s =
     (if \<not> hasRole s r account
      then emit (RoleGranted r account sender) (s\<lparr>roles := (roles s)(r := (roles s r)(account := True))\<rparr>)
      else s)"

definition revokeRole_internal :: "address \<Rightarrow> role \<Rightarrow> address \<Rightarrow> 'a access_gate_scheme \<Rightarrow> 'a access_gate_scheme" where
  "revokeRole_internal sender r account s =
     (if hasRole s r account
      then emit (RoleRevoked r account sender) (s\<lparr>roles := (roles s)(r := (roles s r)(account := False))\<rparr>)
      else s)"

definition grantRole :: "address \<Rightarrow> role \<Rightarrow> address \<Rightarrow> 'a access_gate_scheme \<Rightarrow> error + 'a access_gate_scheme" where
  "grantRole sender r account s =
     (if \<not> hasRole s DEFAULT_ADMIN_ROLE sender then Inl (AccessControl_missing_role sender DEFAULT_ADMIN_ROLE)
      else Inr (grantRole_internal sender r account s))"

definition revokeRole :: "address \<Rightarrow> role \<Rightarrow> address \<Rightarrow> 'a access_gate_scheme \<Rightarrow> error + 'a access_gate_scheme" where
  "revokeRole sender r account s =
     (if \<not> hasRole s DEFAULT_ADMIN_ROLE sender then Inl (AccessControl_missing_role sender DEFAULT_ADMIN_ROLE)
      else Inr (revokeRole_internal sender r account s))"

definition renounceRole :: "address \<Rightarrow> role \<Rightarrow> address \<Rightarrow> 'a access_gate_scheme \<Rightarrow> error + 'a access_gate_scheme" where
  "renounceRole sender r account s =
     (if account \<noteq> sender then Inl AccessControl_renounce_not_self
      else Inr (revokeRole_internal sender r account s))"

text \<open>
  \<^verbatim>\<open>function pause() external onlyRole(ADMIN_ROLE) { _pause(); }\<close> and likewise
  \<^verbatim>\<open>unpause\<close>, in each contract. The library has
  \<^verbatim>\<open>function _pause() internal virtual whenNotPaused { _paused = true; emit Paused(_msgSender()); }\<close>
  and
  \<^verbatim>\<open>function _unpause() internal virtual whenPaused { _paused = false; emit Unpaused(_msgSender()); }\<close>,
  so the role check comes first and the check of the switch second.
\<close>

definition pause :: "address \<Rightarrow> 'a access_gate_scheme \<Rightarrow> error + 'a access_gate_scheme" where
  "pause sender s =
     (if \<not> hasRole s ADMIN_ROLE sender then Inl (AccessControl_missing_role sender ADMIN_ROLE)
      else if paused s then Inl Pausable_paused
      else Inr (emit (Paused sender) (s\<lparr>paused := True\<rparr>)))"

definition unpause :: "address \<Rightarrow> 'a access_gate_scheme \<Rightarrow> error + 'a access_gate_scheme" where
  "unpause sender s =
     (if \<not> hasRole s ADMIN_ROLE sender then Inl (AccessControl_missing_role sender ADMIN_ROLE)
      else if \<not> paused s then Inl Pausable_not_paused
      else Inr (emit (Unpaused sender) (s\<lparr>paused := False\<rparr>)))"

section \<open>OGStorage: the file registry\<close>

text \<open>
  \<^verbatim>\<open>struct File { string rootHash; address owner; uint256 timestamp; bool exists;
  mapping(address => bool) sharedWith; }\<close>. A storage slot that was never written reads
  as zero, so the mapping \<^verbatim>\<open>files\<close> is a total function whose default is the all-zero
  record.
\<close>

record File =
  rootHash :: string
  owner :: address
  timestamp :: uint256
  exists :: bool
  sharedWith :: "address \<Rightarrow> bool"

record OGStorage = access_gate +
  files :: "bytes32 \<Rightarrow> File"
  userFiles :: "address \<Rightarrow> bytes32 list"
  fileCounter :: uint256

text \<open>
  \<^verbatim>\<open>keccak256(abi.encodePacked(rootHash, msg.sender, block.timestamp))\<close>: the hash is an
  external primitive; the operations take it as the parameter \<open>keccak\<close> and every theorem
  holds for every such function.
\<close>

type_synonym id_hash = "string \<Rightarrow> address \<Rightarrow> uint256 \<Rightarrow> bytes32"

definition zero_File :: File where
  "zero_File = \<lparr>rootHash = [], owner = 0, timestamp = 0, exists = False, sharedWith = (\<lambda>_. False)\<rparr>"

definition OGStorage_initialize :: "address \<Rightarrow> OGStorage" where
  "OGStorage_initialize sender =
     grantRole_internal sender ADMIN_ROLE sender
       (grantRole_internal sender DEFAULT_ADMIN_ROLE sender
          \<lparr>paused = False, roles = (\<lambda>_ _. False), log = [],
           files = (\<lambda>_. zero_File), userFiles = (\<lambda>_. []), fileCounter = 0\<rparr>)"

definition uploadFile :: "id_hash \<Rightarrow> address \<Rightarrow> uint256 \<Rightarrow> string \<Rightarrow> OGStorage \<Rightarrow> error + (OGStorage \<times> bytes32)" where
  "uploadFile keccak sender now hash s =
     (if paused s then Inl Pausable_paused
      else if \<not> length hash > 0 then Inl Root_hash_cannot_be_empty
      else let fileId = keccak hash sender now in
        if exists (files s fileId) then Inl File_already_exists
        else Inr (emit (FileUploaded fileId hash sender)
                   (s\<lparr>files := (files s)(fileId := (files s fileId)
                          \<lparr>rootHash := hash, owner := sender, timestamp := now, exists := True\<rparr>),
                      userFiles := (userFiles s)(sender := userFiles s sender @ [fileId]),
                      fileCounter := fileCounter s + 1\<rparr>),
                  fileId))"

definition shareFile :: "address \<Rightarrow> bytes32 \<Rightarrow> address \<Rightarrow> OGStorage \<Rightarrow> error + OGStorage" where
  "shareFile sender fileId user s =
     (if paused s then Inl Pausable_paused
      else if \<not> exists (files s fileId) then Inl File_does_not_exist
      else if owner (files s fileId) \<noteq> sender then Inl Not_file_owner
      else if user = 0 then Inl Invalid_address
      else if sharedWith (files s fileId) user then Inl Already_shared_with_user
      else Inr (emit (FileShared fileId sender user)
                 (s\<lparr>files := (files s)(fileId := (files s fileId)
                        \<lparr>sharedWith := (sharedWith (files s fileId))(user := True)\<rparr>)\<rparr>)))"

definition unshareFile :: "address \<Rightarrow> bytes32 \<Rightarrow> address \<Rightarrow> OGStorage \<Rightarrow> error + OGStorage" where
  "unshareFile sender fileId user s =
     (if paused s then Inl Pausable_paused
      else if \<not> exists (files s fileId) then Inl File_does_not_exist
      else if owner (files s fileId) \<noteq> sender then Inl Not_file_owner
      else if \<not> sharedWith (files s fileId) user then Inl Not_shared_with_user
      else Inr (emit (FileUnshared fileId sender user)
                 (s\<lparr>files := (files s)(fileId := (files s fileId)
                        \<lparr>sharedWith := (sharedWith (files s fileId))(user := False)\<rparr>)\<rparr>)))"

text \<open>
  \<^verbatim>\<open>delete files[fileId]\<close> on a struct resets every member that is not a mapping and
  skips the mappings: Solidity cannot enumerate a mapping's keys, so \<^verbatim>\<open>sharedWith\<close>
  keeps its entries.
\<close>

definition delete_File :: "File \<Rightarrow> File" where
  "delete_File f = f\<lparr>rootHash := [], owner := 0, timestamp := 0, exists := False\<rparr>"

text \<open>
  The loop of \<^verbatim>\<open>deleteFile\<close>, from index \<open>i\<close>: at the first index holding \<open>fileId\<close>
  the last element is copied there, the last element is popped, and the loop breaks.
\<close>

function remove_scan :: "nat \<Rightarrow> bytes32 \<Rightarrow> bytes32 list \<Rightarrow> bytes32 list" where
  "remove_scan i fileId xs =
     (if i < length xs
      then (if xs ! i = fileId then butlast (xs[i := xs ! (length xs - 1)])
            else remove_scan (i + 1) fileId xs)
      else xs)"
  by pat_completeness auto
termination
  by (relation "measure (\<lambda>(i, fileId, xs). length xs - i)") auto

declare remove_scan.simps [simp del]

text \<open>\<^verbatim>\<open>CountersUpgradeable\<close>: \<^verbatim>\<open>increment\<close> adds one unchecked, \<^verbatim>\<open>decrement\<close>
  requires a positive value.\<close>

definition increment :: "uint256 \<Rightarrow> uint256" where
  "increment c = c + 1"

definition decrement :: "uint256 \<Rightarrow> error + uint256" where
  "decrement c = (if c > 0 then Inr (c - 1) else Inl Counter_decrement_overflow)"

definition deleteFile :: "address \<Rightarrow> bytes32 \<Rightarrow> OGStorage \<Rightarrow> error + OGStorage" where
  "deleteFile sender fileId s =
     (if paused s then Inl Pausable_paused
      else if \<not> exists (files s fileId) then Inl File_does_not_exist
      else if owner (files s fileId) \<noteq> sender then Inl Not_file_owner
      else let s1 = s\<lparr>files := (files s)(fileId := delete_File (files s fileId))\<rparr>;
               s2 = s1\<lparr>userFiles := (userFiles s1)(sender := remove_scan 0 fileId (userFiles s1 sender))\<rparr>
           in case decrement (fileCounter s2) of
                Inl e \<Rightarrow> Inl e
              | Inr c \<Rightarrow> Inr (emit (FileDeleted fileId sender) (s2\<lparr>fileCounter := c\<rparr>)))"

definition hasAccess :: "OGStorage \<Rightarrow> bytes32 \<Rightarrow> address \<Rightarrow> bool" where
  "hasAccess s fileId user =
     (if \<not> exists (files s fileId) then False
      else owner (files s fileId) = user \<or> sharedWith (files s fileId) user)"

definition getFile :: "address \<Rightarrow> bytes32 \<Rightarrow> OGStorage \<Rightarrow> error + (string \<times> address \<times> uint256)" where
  "getFile sender fileId s =
     (if \<not> exists (files s fileId) then Inl File_does_not_exist
      else if \<not> hasAccess s fileId sender then Inl No_access_to_file
      else Inr (rootHash (files s fileId), owner (files s fileId), timestamp (files s fileId)))"

definition getUserFiles :: "OGStorage \<Rightarrow> address \<Rightarrow> bytes32 list" where
  "getUserFiles s user = userFiles s user"

definition getTotalFiles :: "OGStorage \<Rightarrow> uint256" where
  "getTotalFiles s = fileCounter s"

subsection \<open>Transactions against the file registry\<close>

text \<open>
  The externally callable, state-changing functions as a datatype, and a run of
  transactions, each with its sender and block timestamp. A reverted transaction leaves
  the state as it was. The reachable states are the runs from an initialised contract.
\<close>

datatype gate_call =
    Pause
  | Unpause
  | GrantRole role address
  | RevokeRole role address
  | RenounceRole role address

fun gate_exec :: "address \<Rightarrow> gate_call \<Rightarrow> 'a access_gate_scheme \<Rightarrow> error + 'a access_gate_scheme" where
  "gate_exec sender Pause s = pause sender s"
| "gate_exec sender Unpause s = unpause sender s"
| "gate_exec sender (GrantRole r account) s = grantRole sender r account s"
| "gate_exec sender (RevokeRole r account) s = revokeRole sender r account s"
| "gate_exec sender (RenounceRole r account) s = renounceRole sender r account s"

datatype storage_call =
    UploadFile string
  | ShareFile bytes32 address
  | UnshareFile bytes32 address
  | DeleteFile bytes32
  | StorageGate gate_call

fun storage_exec :: "id_hash \<Rightarrow> address \<Rightarrow> uint256 \<Rightarrow> storage_call \<Rightarrow> OGStorage \<Rightarrow> error + OGStorage" where
  "storage_exec keccak sender now (UploadFile hash) s =
     (case uploadFile keccak sender now hash s of Inl e \<Rightarrow> Inl e | Inr (s', fileId) \<Rightarrow> Inr s')"
| "storage_exec keccak sender now (ShareFile fileId user) s = shareFile sender fileId user s"
| "storage_exec keccak sender now (UnshareFile fileId user) s = unshareFile sender fileId user s"
| "storage_exec keccak sender now (DeleteFile fileId) s = deleteFile sender fileId s"
| "storage_exec keccak sender now (StorageGate c) s = gate_exec sender c s"

fun storage_run :: "id_hash \<Rightarrow> (address \<times> uint256 \<times> storage_call) list \<Rightarrow> OGStorage \<Rightarrow> OGStorage" where
  "storage_run keccak [] s = s"
| "storage_run keccak ((sender, now, c) # txs) s =
     storage_run keccak txs (state_after s (storage_exec keccak sender now c s))"

text \<open>The transaction is an upload that derives the identifier \<open>fileId\<close>.\<close>

fun derives :: "id_hash \<Rightarrow> bytes32 \<Rightarrow> address \<times> uint256 \<times> storage_call \<Rightarrow> bool" where
  "derives keccak fileId (sender, now, UploadFile hash) = (keccak hash sender now = fileId)"
| "derives keccak fileId (sender, now, c) = False"

text \<open>The owner index agrees with the records, and holds no identifier twice.\<close>

definition owner_index_inv :: "OGStorage \<Rightarrow> bool" where
  "owner_index_inv s \<longleftrightarrow>
     (\<forall>p fileId. fileId \<in> set (userFiles s p) \<longleftrightarrow> exists (files s fileId) \<and> owner (files s fileId) = p)
   \<and> (\<forall>p. distinct (userFiles s p))"


text \<open>A stand-in for the hash, for evaluating the operations on concrete inputs.\<close>

definition sample_keccak :: id_hash where
  "sample_keccak hash sender now = of_nat (length hash) + ucast sender + now"

section \<open>OGRegistry: the user registry\<close>

record UserProfile =
  isRegistered :: bool
  username :: string
  storageLimit :: uint256
  usedStorage :: uint256
  registrationDate :: uint256

record OGRegistry = access_gate +
  users :: "address \<Rightarrow> UserProfile"
  usernameToAddress :: "string \<Rightarrow> address"
  defaultStorageLimit :: uint256

definition zero_UserProfile :: UserProfile where
  "zero_UserProfile =
     \<lparr>isRegistered = False, username = [], storageLimit = 0, usedStorage = 0, registrationDate = 0\<rparr>"

definition OGRegistry_initialize :: "address \<Rightarrow> uint256 \<Rightarrow> OGRegistry" where
  "OGRegistry_initialize sender limit =
     grantRole_internal sender ADMIN_ROLE sender
       (grantRole_internal sender DEFAULT_ADMIN_ROLE sender
          \<lparr>paused = False, roles = (\<lambda>_ _. False), log = [],
           users = (\<lambda>_. zero_UserProfile), usernameToAddress = (\<lambda>_. 0),
           defaultStorageLimit = limit\<rparr>)"

definition register :: "address \<Rightarrow> uint256 \<Rightarrow> string \<Rightarrow> OGRegistry \<Rightarrow> error + OGRegistry" where
  "register sender now name s =
     (if paused s then Inl Pausable_paused
      else if isRegistered (users s sender) then Inl User_already_registered
      else if \<not> length name > 0 then Inl Username_cannot_be_empty
      else if usernameToAddress s name \<noteq> 0 then Inl Username_already_taken
      else Inr (emit (UserRegistered sender name)
                 (s\<lparr>users := (users s)(sender :=
                        \<lparr>isRegistered = True, username = name, storageLimit = defaultStorageLimit s,
                         usedStorage = 0, registrationDate = now\<rparr>),
                    usernameToAddress := (usernameToAddress s)(name := sender)\<rparr>)))"

definition updateUsedStorage :: "address \<Rightarrow> address \<Rightarrow> uint256 \<Rightarrow> OGRegistry \<Rightarrow> error + OGRegistry" where
  "updateUsedStorage sender user newUsedStorage s =
     (if \<not> hasRole s VERIFIER_ROLE sender then Inl (AccessControl_missing_role sender VERIFIER_ROLE)
      else if \<not> isRegistered (users s user) then Inl User_not_registered
      else if \<not> newUsedStorage \<le> storageLimit (users s user) then Inl Storage_limit_exceeded
      else Inr (emit (UsedStorageUpdated user newUsedStorage)
                 (s\<lparr>users := (users s)(user := (users s user)\<lparr>usedStorage := newUsedStorage\<rparr>)\<rparr>)))"

definition updateStorageLimit :: "address \<Rightarrow> address \<Rightarrow> uint256 \<Rightarrow> OGRegistry \<Rightarrow> error + OGRegistry" where
  "updateStorageLimit sender user newLimit s =
     (if \<not> hasRole s ADMIN_ROLE sender then Inl (AccessControl_missing_role sender ADMIN_ROLE)
      else if \<not> isRegistered (users s user) then Inl User_not_registered
      else if \<not> newLimit \<ge> usedStorage (users s user) then Inl New_limit_below_used_storage
      else Inr (emit (StorageLimitUpdated user newLimit)
                 (s\<lparr>users := (users s)(user := (users s user)\<lparr>storageLimit := newLimit\<rparr>)\<rparr>)))"

definition updateDefaultStorageLimit :: "address \<Rightarrow> uint256 \<Rightarrow> OGRegistry \<Rightarrow> error + OGRegistry" where
  "updateDefaultStorageLimit sender newLimit s =
     (if \<not> hasRole s ADMIN_ROLE sender then Inl (AccessControl_missing_role sender ADMIN_ROLE)
      else Inr (emit (DefaultStorageLimitUpdated newLimit) (s\<lparr>defaultStorageLimit := newLimit\<rparr>)))"

definition getUserProfile :: "OGRegistry \<Rightarrow> address \<Rightarrow> error + UserProfile" where
  "getUserProfile s user =
     (if \<not> isRegistered (users s user) then Inl User_not_registered else Inr (users s user))"

definition getAddressByUsername :: "OGRegistry \<Rightarrow> string \<Rightarrow> error + address" where
  "getAddressByUsername s name =
     (let userAddress = usernameToAddress s name
      in if \<not> userAddress \<noteq> 0 then Inl Username_not_registered else Inr userAddress)"

text \<open>Solidity 0.8 arithmetic on \<^verbatim>\<open>uint256\<close>: an overflow or underflow reverts with a panic.\<close>

definition checked_add :: "uint256 \<Rightarrow> uint256 \<Rightarrow> error + uint256" where
  "checked_add a b = (if unat a + unat b < 2 ^ 256 then Inr (a + b) else Inl Panic_arithmetic)"

definition checked_mul :: "uint256 \<Rightarrow> uint256 \<Rightarrow> error + uint256" where
  "checked_mul a b = (if unat a * unat b < 2 ^ 256 then Inr (a * b) else Inl Panic_arithmetic)"

definition checked_sub :: "uint256 \<Rightarrow> uint256 \<Rightarrow> error + uint256" where
  "checked_sub a b = (if b \<le> a then Inr (a - b) else Inl Panic_arithmetic)"

definition canStoreData :: "OGRegistry \<Rightarrow> address \<Rightarrow> uint256 \<Rightarrow> error + bool" where
  "canStoreData s user sz =
     (if \<not> isRegistered (users s user) then Inr False
      else case checked_add (usedStorage (users s user)) sz of
             Inl e \<Rightarrow> Inl e
           | Inr needed \<Rightarrow> Inr (needed \<le> storageLimit (users s user)))"

datatype registry_call =
    Register string
  | UpdateUsedStorage address uint256
  | UpdateStorageLimit address uint256
  | UpdateDefaultStorageLimit uint256
  | RegistryGate gate_call

fun registry_exec :: "address \<Rightarrow> uint256 \<Rightarrow> registry_call \<Rightarrow> OGRegistry \<Rightarrow> error + OGRegistry" where
  "registry_exec sender now (Register name) s = register sender now name s"
| "registry_exec sender now (UpdateUsedStorage user n) s = updateUsedStorage sender user n s"
| "registry_exec sender now (UpdateStorageLimit user n) s = updateStorageLimit sender user n s"
| "registry_exec sender now (UpdateDefaultStorageLimit n) s = updateDefaultStorageLimit sender n s"
| "registry_exec sender now (RegistryGate c) s = gate_exec sender c s"

fun registry_run :: "(address \<times> uint256 \<times> registry_call) list \<Rightarrow> OGRegistry \<Rightarrow> OGRegistry" where
  "registry_run [] s = s"
| "registry_run ((sender, now, c) # txs) s =
     registry_run txs (state_after s (registry_exec sender now c s))"

definition quota_inv :: "OGRegistry \<Rightarrow> bool" where
  "quota_inv s \<longleftrightarrow> (\<forall>user. usedStorage (users s user) \<le> storageLimit (users s user))"

section \<open>OGFees: the fee ledger\<close>

text \<open>
  Besides its declared variables the contract holds ether: \<open>balance\<close> is
  \<^verbatim>\<open>address(this).balance\<close>, the undistributed funds, a natural number of wei. The
  value attached to a payable call is credited when the call is entered and, like every
  other effect, is undone when the call reverts. \<open>sent\<close> lists the value transfers the
  contract has made (recipient and amount), oldest first. The ledger's own address,
  \<^verbatim>\<open>address(this)\<close>, is the argument \<open>this\<close> of the operations that transfer value.
\<close>

record FeeConfig =
  baseStorageFee :: uint256
  networkFee :: uint256
  sharingFee :: uint256
  minimumFee :: uint256

record OGFees = access_gate +
  feeConfig :: FeeConfig
  treasury :: address
  discountedUsers :: "address \<Rightarrow> bool"
  discountPercentage :: uint256
  balance :: nat
  sent :: "(address \<times> nat) list"

definition OGFees_initialize ::
  "address \<Rightarrow> address \<Rightarrow> uint256 \<Rightarrow> uint256 \<Rightarrow> uint256 \<Rightarrow> uint256 \<Rightarrow> uint256 \<Rightarrow> error + OGFees" where
  "OGFees_initialize sender treasury0 base net sharing minimum pct =
     (if \<not> treasury0 \<noteq> 0 then Inl Invalid_treasury_address
      else if \<not> pct \<le> 100 then Inl Invalid_discount_percentage
      else Inr (grantRole_internal sender FEE_MANAGER_ROLE sender
                 (grantRole_internal sender ADMIN_ROLE sender
                   (grantRole_internal sender DEFAULT_ADMIN_ROLE sender
                      \<lparr>paused = False, roles = (\<lambda>_ _. False), log = [],
                       feeConfig = \<lparr>baseStorageFee = base, networkFee = net,
                                    sharingFee = sharing, minimumFee = minimum\<rparr>,
                       treasury = treasury0, discountedUsers = (\<lambda>_. False),
                       discountPercentage = pct, balance = 0, sent = []\<rparr>))))"

definition calculateStorageFee :: "OGFees \<Rightarrow> uint256 \<Rightarrow> error + uint256" where
  "calculateStorageFee s sz =
     (case checked_mul sz (baseStorageFee (feeConfig s)) of
        Inl e \<Rightarrow> Inl e
      | Inr product \<Rightarrow>
          (case checked_add product (networkFee (feeConfig s)) of
             Inl e \<Rightarrow> Inl e
           | Inr fee \<Rightarrow>
               if fee < minimumFee (feeConfig s) then Inr (minimumFee (feeConfig s)) else Inr fee))"

definition getSharingFee :: "OGFees \<Rightarrow> uint256" where
  "getSharingFee s = sharingFee (feeConfig s)"

definition applyDiscount :: "OGFees \<Rightarrow> address \<Rightarrow> uint256 \<Rightarrow> error + uint256" where
  "applyDiscount s user amount =
     (if \<not> discountedUsers s user then Inr amount
      else case checked_mul amount (discountPercentage s) of
             Inl e \<Rightarrow> Inl e
           | Inr product \<Rightarrow> (let discount = product div 100 in checked_sub amount discount))"

text \<open>
  \<^verbatim>\<open>to.call{value: v}("")\<close>, the low-level call that moves \<open>v\<close> wei to \<open>to\<close> and
  runs the recipient's code with empty call data. The result is the ledger's state when
  the call returns successfully, and \<open>None\<close> when it fails.
  \<^item> The ledger cannot send more than it holds.
  \<^item> When the recipient is the ledger itself, its own \<^verbatim>\<open>receive() external payable {}\<close>
    runs: the value never leaves the balance and the call succeeds.
  \<^item> Any other recipient is code outside the ledger. What it does is the argument
    \<open>callee\<close>: applied to the ledger's state after the value has left, it gives \<open>None\<close>
    when the recipient reverts, and otherwise the ledger's state at the moment the
    recipient returns, which differs from the state it was given when the recipient
    called back into the ledger.
\<close>

definition send_value :: "address \<Rightarrow> (OGFees \<Rightarrow> OGFees option) \<Rightarrow> address \<Rightarrow> nat \<Rightarrow> OGFees \<Rightarrow> OGFees option" where
  "send_value this callee to v s =
     (if balance s < v then None
      else let s' = s\<lparr>sent := sent s @ [(to, v)]\<rparr> in
        if to = this then Some s'
        else callee (s'\<lparr>balance := balance s' - v\<rparr>))"

definition collectFee ::
  "address \<Rightarrow> address \<Rightarrow> uint256 \<Rightarrow> (OGFees \<Rightarrow> OGFees option) \<Rightarrow> address \<Rightarrow> uint256 \<Rightarrow> string \<Rightarrow> OGFees
     \<Rightarrow> error + OGFees" where
  "collectFee this sender msg_value callee user amount feeType s =
     (let s0 = s\<lparr>balance := balance s + unat msg_value\<rparr> in
      if paused s0 then Inl Pausable_paused
      else if \<not> hasRole s0 FEE_MANAGER_ROLE sender then Inl (AccessControl_missing_role sender FEE_MANAGER_ROLE)
      else if \<not> msg_value \<ge> amount then Inl Insufficient_fee
      else let s1 = emit (FeeCollected user amount feeType) s0 in
        if msg_value > amount
        then (case send_value this callee user (unat (msg_value - amount)) s1 of
                None \<Rightarrow> Inl Failed_to_return_excess_fee
              | Some s2 \<Rightarrow> Inr s2)
        else Inr s1)"

text \<open>The event is emitted after the call has returned, and reads \<^verbatim>\<open>treasury\<close> then.\<close>

definition distributeFees :: "address \<Rightarrow> address \<Rightarrow> (OGFees \<Rightarrow> OGFees option) \<Rightarrow> OGFees \<Rightarrow> error + OGFees" where
  "distributeFees this sender callee s =
     (if \<not> hasRole s ADMIN_ROLE sender then Inl (AccessControl_missing_role sender ADMIN_ROLE)
      else let bal = balance s in
        if \<not> bal > 0 then Inl No_fees_to_distribute
        else case send_value this callee (treasury s) bal s of
               None \<Rightarrow> Inl Failed_to_distribute_fees
             | Some s' \<Rightarrow> Inr (emit (FeeDistributed (treasury s') bal) s'))"

definition updateFeeConfig ::
  "address \<Rightarrow> uint256 \<Rightarrow> uint256 \<Rightarrow> uint256 \<Rightarrow> uint256 \<Rightarrow> OGFees \<Rightarrow> error + OGFees" where
  "updateFeeConfig sender base net sharing minimum s =
     (if \<not> hasRole s ADMIN_ROLE sender then Inl (AccessControl_missing_role sender ADMIN_ROLE)
      else Inr (emit (FeeConfigUpdated base net sharing minimum)
                 (s\<lparr>feeConfig := \<lparr>baseStorageFee = base, networkFee = net,
                                   sharingFee = sharing, minimumFee = minimum\<rparr>\<rparr>)))"

definition updateTreasury :: "address \<Rightarrow> address \<Rightarrow> OGFees \<Rightarrow> error + OGFees" where
  "updateTreasury sender newTreasury s =
     (if \<not> hasRole s ADMIN_ROLE sender then Inl (AccessControl_missing_role sender ADMIN_ROLE)
      else if \<not> newTreasury \<noteq> 0 then Inl Invalid_treasury_address
      else let oldTreasury = treasury s
           in Inr (emit (TreasuryUpdated oldTreasury newTreasury) (s\<lparr>treasury := newTreasury\<rparr>)))"

definition addDiscountedUser :: "address \<Rightarrow> address \<Rightarrow> OGFees \<Rightarrow> error + OGFees" where
  "addDiscountedUser sender user s =
     (if \<not> hasRole s FEE_MANAGER_ROLE sender then Inl (AccessControl_missing_role sender FEE_MANAGER_ROLE)
      else if discountedUsers s user then Inl Already_a_discounted_user
      else Inr (emit (DiscountedUserAdded user)
                 (s\<lparr>discountedUsers := (discountedUsers s)(user := True)\<rparr>)))"

definition removeDiscountedUser :: "address \<Rightarrow> address \<Rightarrow> OGFees \<Rightarrow> error + OGFees" where
  "removeDiscountedUser sender user s =
     (if \<not> hasRole s FEE_MANAGER_ROLE sender then Inl (AccessControl_missing_role sender FEE_MANAGER_ROLE)
      else if \<not> discountedUsers s user then Inl Not_a_discounted_user
      else Inr (emit (DiscountedUserRemoved user)
                 (s\<lparr>discountedUsers := (discountedUsers s)(user := False)\<rparr>)))"

definition updateDiscountPercentage :: "address \<Rightarrow> uint256 \<Rightarrow> OGFees \<Rightarrow> error + OGFees" where
  "updateDiscountPercentage sender pct s =
     (if \<not> hasRole s ADMIN_ROLE sender then Inl (AccessControl_missing_role sender ADMIN_ROLE)
      else if \<not> pct \<le> 100 then Inl Invalid_discount_percentage
      else let oldPercentage = discountPercentage s
           in Inr (emit (DiscountPercentageUpdated oldPercentage pct) (s\<lparr>discountPercentage := pct\<rparr>)))"

text \<open>\<^verbatim>\<open>receive() external payable {}\<close>: anyone may send ether to the ledger.\<close>

definition receive_ether :: "uint256 \<Rightarrow> OGFees \<Rightarrow> error + OGFees" where
  "receive_ether msg_value s = Inr (s\<lparr>balance := balance s + unat msg_value\<rparr>)"

text \<open>
  The calls of the fee ledger. A call that transfers value carries what its recipient
  does: it reverts, or it returns after having made the listed calls to the ledger, each
  with its own sender; a listed call that reverts leaves the state as it was for the
  next one, as a caught failure does. This is all a recipient can do to the ledger's
  state, since the state changes only through the ledger's functions.
\<close>

datatype 'c outcome = Call_reverted | Call_returned "'c list"

datatype fees_call =
    CollectFee uint256 "(address \<times> fees_call) outcome" address uint256 string
  | DistributeFees "(address \<times> fees_call) outcome"
  | UpdateFeeConfig uint256 uint256 uint256 uint256
  | UpdateTreasury address
  | AddDiscountedUser address
  | RemoveDiscountedUser address
  | UpdateDiscountPercentage uint256
  | Receive uint256
  | FeesGate gate_call

function fees_exec :: "address \<Rightarrow> address \<Rightarrow> fees_call \<Rightarrow> OGFees \<Rightarrow> error + OGFees"
  and fees_run :: "address \<Rightarrow> (address \<times> fees_call) list \<Rightarrow> OGFees \<Rightarrow> OGFees" where
  "fees_exec this sender (CollectFee v Call_reverted user amount feeType) s =
     collectFee this sender v (\<lambda>s'. None) user amount feeType s"
| "fees_exec this sender (CollectFee v (Call_returned cbs) user amount feeType) s =
     collectFee this sender v (\<lambda>s'. Some (fees_run this cbs s')) user amount feeType s"
| "fees_exec this sender (DistributeFees Call_reverted) s =
     distributeFees this sender (\<lambda>s'. None) s"
| "fees_exec this sender (DistributeFees (Call_returned cbs)) s =
     distributeFees this sender (\<lambda>s'. Some (fees_run this cbs s')) s"
| "fees_exec this sender (UpdateFeeConfig b n sh m) s = updateFeeConfig sender b n sh m s"
| "fees_exec this sender (UpdateTreasury t) s = updateTreasury sender t s"
| "fees_exec this sender (AddDiscountedUser u) s = addDiscountedUser sender u s"
| "fees_exec this sender (RemoveDiscountedUser u) s = removeDiscountedUser sender u s"
| "fees_exec this sender (UpdateDiscountPercentage pct) s = updateDiscountPercentage sender pct s"
| "fees_exec this sender (Receive v) s = receive_ether v s"
| "fees_exec this sender (FeesGate c) s = gate_exec sender c s"
| "fees_run this [] s = s"
| "fees_run this ((sender, c) # txs) s =
     fees_run this txs (state_after s (fees_exec this sender c s))"
  by pat_completeness auto
termination
  by (relation "measure (\<lambda>x. case x of
        Inl (this, sender, c, s) \<Rightarrow> size c
      | Inr (this, txs, s) \<Rightarrow> size_list (size_prod (\<lambda>_. 0) size) txs)") auto

text \<open>What the recipient of a transfer does, as the argument of \<open>send_value\<close>.\<close>

definition callee_of :: "address \<Rightarrow> (address \<times> fees_call) outcome \<Rightarrow> OGFees \<Rightarrow> OGFees option" where
  "callee_of this out =
     (case out of
        Call_reverted \<Rightarrow> (\<lambda>s. None)
      | Call_returned cbs \<Rightarrow> (\<lambda>s. Some (fees_run this cbs s)))"

section \<open>Concrete states\<close>

text \<open>
  States reached by short runs from initialised contracts, on which the theorems below
  are instantiated. Address 1 deploys each contract.
\<close>

definition demo_storage :: OGStorage where
  "demo_storage =
     storage_run sample_keccak
       [(1, 1000, UploadFile ''Qm''), (1, 1000, ShareFile 1003 2)]
       (OGStorage_initialize 1)"

definition demo_registry :: OGRegistry where
  "demo_registry =
     registry_run
       [(2, 1000, Register ''alice''), (1, 1001, RegistryGate (GrantRole VERIFIER_ROLE 3)),
        (3, 1002, UpdateUsedStorage 2 500)]
       (OGRegistry_initialize 1 1000)"

text \<open>The fee ledger at address 100, initialised by address 101 with treasury 109, base fee
  2 per byte, network fee 5, sharing fee 1, minimum fee 100 and a discount of 50 percent
  (the initialisation succeeds, see \<open>demo_fees_init\<close> below); address 107 is then made a
  discounted user.\<close>

definition demo_fees :: OGFees where
  "demo_fees =
     fees_run 100 [(101, AddDiscountedUser 107)] (projr (OGFees_initialize 101 109 2 5 1 100 50))"

text \<open>The file of \<open>demo_storage\<close> deleted by its owner, and then uploaded again by the
  owner with the same content hash in the same block.\<close>

definition demo_deleted :: OGStorage where
  "demo_deleted = storage_run sample_keccak [(1, 1000, DeleteFile 1003)] demo_storage"

definition demo_reuploaded :: OGStorage where
  "demo_reuploaded = storage_run sample_keccak [(1, 1000, UploadFile ''Qm'')] demo_deleted"

text \<open>The state after two further uploads and a share, following the deletion.\<close>

definition demo_later :: OGStorage where
  "demo_later =
     storage_run sample_keccak
       [(1, 1001, UploadFile ''Qm''), (2, 1000, UploadFile ''Qmx''), (1, 1002, ShareFile 1004 4)]
       demo_deleted"

text \<open>Paused ledgers; the fee ledger holds 40 wei that address 103 sent to it.\<close>

definition demo_storage_paused :: OGStorage where
  "demo_storage_paused = storage_run sample_keccak [(1, 1001, StorageGate Pause)] demo_storage"

definition demo_registry_paused :: OGRegistry where
  "demo_registry_paused = registry_run [(1, 1003, RegistryGate Pause)] demo_registry"

definition demo_fees_paused :: OGFees where
  "demo_fees_paused = fees_run 100 [(103, Receive 40), (101, FeesGate Pause)] demo_fees"

section \<open>Auxiliary facts\<close>

lemmas gate_defs = hasRole_def emit_def grantRole_internal_def revokeRole_internal_def
  grantRole_def revokeRole_def renounceRole_def pause_def unpause_def

subsection \<open>The swap-remove scan\<close>

lemma swap_remove_set:
  assumes "distinct xs" "i < length xs"
  shows "set (butlast (xs[i := xs ! (length xs - 1)])) = set xs - {xs ! i}
       \<and> distinct (butlast (xs[i := xs ! (length xs - 1)]))"
proof -
  from assms obtain ys l where xs: "xs = ys @ [l]"
    by (cases xs rule: rev_cases) auto
  have l: "xs ! (length xs - 1) = l" by (simp add: xs)
  show ?thesis
  proof (cases "i = length ys")
    case True
    have "xs[i := l] = xs" using True by (simp add: xs)
    then show ?thesis unfolding l using assms True by (auto simp: xs)
  next
    case False
    with assms have i: "i < length ys" by (simp add: xs)
    then have upd: "butlast (xs[i := l]) = ys[i := l]" by (simp add: xs list_update_append)
    from assms have d: "distinct ys" "l \<notin> set ys" by (auto simp: xs)
    have s: "set (ys[i := l]) = insert l (set ys - {ys ! i})"
      using d i by (simp add: set_update_distinct)
    have dd: "distinct (ys[i := l])" using d i by (simp add: distinct_list_update)
    have n: "xs ! i = ys ! i" using i by (simp add: xs nth_append)
    have "ys ! i \<noteq> l" using d i by (metis nth_mem)
    then have "insert l (set ys - {ys ! i}) = set xs - {xs ! i}"
      using d unfolding n by (auto simp: xs)
    then show ?thesis unfolding l upd using s dd by simp
  qed
qed

lemma remove_scan_distinct:
  "distinct xs \<Longrightarrow>
     set (remove_scan i x xs) = (if x \<in> set (drop i xs) then set xs - {x} else set xs)
   \<and> distinct (remove_scan i x xs)"
proof (induction i x xs rule: remove_scan.induct)
  case (1 i fileId xs)
  show ?case
  proof (cases "i < length xs")
    case False
    then show ?thesis using 1 by (simp add: remove_scan.simps[of i])
  next
    case True
    show ?thesis
    proof (cases "xs ! i = fileId")
      case hit: True
      have "fileId \<in> set (drop i xs)" using True hit
        by (metis Cons_nth_drop_Suc list.set_intros(1))
      then show ?thesis using swap_remove_set[OF "1.prems" True] True hit
        by (simp add: remove_scan.simps[of i])
    next
      case miss: False
      have "drop i xs = xs ! i # drop (Suc i) xs" using True by (simp add: Cons_nth_drop_Suc)
      then have "fileId \<in> set (drop i xs) \<longleftrightarrow> fileId \<in> set (drop (i + 1) xs)"
        using miss by auto
      then show ?thesis using "1.IH"[OF True miss "1.prems"] True miss
        by (simp add: remove_scan.simps[of i])
    qed
  qed
qed

lemma remove_scan_all:
  assumes "distinct xs"
  shows "set (remove_scan 0 x xs) = set xs - {x}" and "distinct (remove_scan 0 x xs)"
  using remove_scan_distinct [OF assms, of 0 x] by auto

text \<open>Gate calls touch neither the records nor the index nor the counter.\<close>

lemma gate_exec_storage:
  "gate_exec sender c s = Inr s' \<Longrightarrow>
     files s' = files (s::OGStorage) \<and> userFiles s' = userFiles s \<and> fileCounter s' = fileCounter s"
  by (cases c) (auto simp: gate_defs split: if_splits)

lemma uploadFile_Inr:
  assumes "uploadFile k sender now h s = Inr (s', fid)"
  shows "fid = k h sender now" "\<not> exists (files s fid)"
    "files s' = (files s)(fid := (files s fid)\<lparr>rootHash := h, owner := sender, timestamp := now, exists := True\<rparr>)"
    "userFiles s' = (userFiles s)(sender := userFiles s sender @ [fid])"
    "fileCounter s' = fileCounter s + 1" "paused s' = paused s" "\<not> paused s"
  using assms by (auto simp: uploadFile_def Let_def emit_def split: if_splits)

lemma shareFile_Inr:
  assumes "shareFile sender fid user s = Inr s'"
  shows "user \<noteq> 0"
    "files s' = (files s)(fid := (files s fid)\<lparr>sharedWith := (sharedWith (files s fid))(user := True)\<rparr>)"
    "userFiles s' = userFiles s" "fileCounter s' = fileCounter s"
  using assms by (auto simp: shareFile_def emit_def split: if_splits)

lemma unshareFile_Inr:
  assumes "unshareFile sender fid user s = Inr s'"
  shows
    "files s' = (files s)(fid := (files s fid)\<lparr>sharedWith := (sharedWith (files s fid))(user := False)\<rparr>)"
    "userFiles s' = userFiles s" "fileCounter s' = fileCounter s"
  using assms by (auto simp: unshareFile_def emit_def split: if_splits)

lemma deleteFile_Inr:
  assumes "deleteFile sender fid s = Inr s'"
  shows "exists (files s fid)" "owner (files s fid) = sender" "\<not> paused s" "paused s' = paused s"
    "files s' = (files s)(fid := delete_File (files s fid))"
    "userFiles s' = (userFiles s)(sender := remove_scan 0 fid (userFiles s sender))"
    "fileCounter s \<noteq> 0" "fileCounter s' = fileCounter s - 1"
  using assms
  by (auto simp: deleteFile_def decrement_def emit_def Let_def word_gt_0 split: if_splits sum.splits)

lemma storage_exec_index:
  assumes "owner_index_inv s" "storage_exec k sender now c s = Inr s'"
  shows "owner_index_inv s'"
proof (cases c)
  case (UploadFile h)
  with assms(2) obtain fid where u: "uploadFile k sender now h s = Inr (s', fid)"
    by (auto split: sum.splits)
  note f = uploadFile_Inr [OF u]
  from assms(1) f(2) have "\<And>p. fid \<notin> set (userFiles s p)" by (auto simp: owner_index_inv_def)
  then show ?thesis using assms(1) f(2) unfolding owner_index_inv_def f(3,4) by auto
next
  case (ShareFile fid user)
  with assms(2) have "shareFile sender fid user s = Inr s'" by simp
  note f = shareFile_Inr [OF this]
  show ?thesis using assms(1) unfolding owner_index_inv_def f(2,3) by auto
next
  case (UnshareFile fid user)
  with assms(2) have "unshareFile sender fid user s = Inr s'" by simp
  note f = unshareFile_Inr [OF this]
  show ?thesis using assms(1) unfolding owner_index_inv_def f(1,2) by auto
next
  case (DeleteFile fid)
  with assms(2) have "deleteFile sender fid s = Inr s'" by simp
  note f = deleteFile_Inr [OF this]
  from assms(1) have d: "distinct (userFiles s sender)" by (simp add: owner_index_inv_def)
  note r = remove_scan_all [OF d, of fid]
  show ?thesis using assms(1) f(1,2) r unfolding owner_index_inv_def f(5,6)
    by (auto simp: delete_File_def)
next
  case (StorageGate g)
  with assms(2) have "gate_exec sender g s = Inr s'" by simp
  from gate_exec_storage [OF this] show ?thesis using assms(1) by (simp add: owner_index_inv_def)
qed

lemma storage_init_index: "owner_index_inv (OGStorage_initialize deployer)"
  by (simp add: owner_index_inv_def OGStorage_initialize_def grantRole_internal_def emit_def
      hasRole_def zero_File_def)

lemma storage_run_index:
  "owner_index_inv s \<Longrightarrow> owner_index_inv (storage_run k txs s)"
proof (induction txs arbitrary: s)
  case Nil
  then show ?case by simp
next
  case (Cons tx txs)
  obtain sender now c where tx: "tx = (sender, now, c)" by (cases tx)
  have "owner_index_inv (state_after s (storage_exec k sender now c s))"
    using Cons.prems by (auto simp: state_after_def split: sum.splits dest: storage_exec_index)
  then show ?case using Cons.IH by (simp add: tx)
qed

lemma deleteFile_index:
  assumes "owner_index_inv s" "deleteFile sender fid s = Inr s'"
  shows "fid \<notin> set (getUserFiles s' sender)"
    and "unat (getTotalFiles s') = unat (getTotalFiles s) - 1" and "0 < unat (getTotalFiles s)"
proof -
  note f = deleteFile_Inr [OF assms(2)]
  from assms(1) have d: "distinct (userFiles s sender)" by (simp add: owner_index_inv_def)
  show "fid \<notin> set (getUserFiles s' sender)"
    using remove_scan_all [OF d, of fid] by (simp add: getUserFiles_def f(6))
  show "0 < unat (getTotalFiles s)" using f(7) by (simp add: getTotalFiles_def unat_gt_0)
  show "unat (getTotalFiles s') = unat (getTotalFiles s) - 1"
    using f(7) by (simp add: getTotalFiles_def f(8) unat_minus_one)
qed

subsection \<open>Fee arithmetic\<close>

lemma gate_exec_pct:
  "gate_exec sender c s = Inr s' \<Longrightarrow> discountPercentage s' = discountPercentage (s::OGFees)"
  by (cases c) (auto simp: gate_defs split: if_splits)

lemma send_value_pct:
  assumes "\<forall>t t'. callee t = Some t' \<longrightarrow> discountPercentage t \<le> 100 \<longrightarrow> discountPercentage t' \<le> 100"
    and "send_value this callee to v s = Some s'" and "discountPercentage s \<le> 100"
  shows "discountPercentage s' \<le> 100"
proof (cases "to = this")
  case True
  with assms(2,3) show ?thesis by (auto simp: send_value_def Let_def split: if_splits)
next
  case False
  with assms(2) have "callee (s\<lparr>sent := sent s @ [(to, v)], balance := balance s - v\<rparr>) = Some s'"
    by (auto simp: send_value_def Let_def split: if_splits)
  with assms(1,3) show ?thesis by auto
qed

lemma collectFee_pct:
  assumes "\<forall>t t'. callee t = Some t' \<longrightarrow> discountPercentage t \<le> 100 \<longrightarrow> discountPercentage t' \<le> 100"
    and "collectFee this sender v callee user amount feeType s = Inr s'"
    and "discountPercentage s \<le> 100"
  shows "discountPercentage s' \<le> 100"
proof (cases "v > amount")
  case False
  with assms(2,3) show ?thesis
    by (auto simp: collectFee_def Let_def emit_def split: if_splits)
next
  case True
  let ?s1 = "emit (FeeCollected user amount feeType) (s\<lparr>balance := balance s + unat v\<rparr>)"
  from True assms(2) have "send_value this callee user (unat (v - amount)) ?s1 = Some s'"
    by (auto simp: collectFee_def Let_def split: if_splits option.splits)
  from send_value_pct [OF assms(1) this] assms(3) show ?thesis by (simp add: emit_def)
qed

lemma distributeFees_pct:
  assumes "\<forall>t t'. callee t = Some t' \<longrightarrow> discountPercentage t \<le> 100 \<longrightarrow> discountPercentage t' \<le> 100"
    and "distributeFees this sender callee s = Inr s'"
    and "discountPercentage s \<le> 100"
  shows "discountPercentage s' \<le> 100"
proof -
  from assms(2) obtain t where t: "send_value this callee (treasury s) (balance s) s = Some t"
    and s': "s' = emit (FeeDistributed (treasury t) (balance s)) t"
    by (auto simp: distributeFees_def Let_def split: if_splits option.splits)
  from send_value_pct [OF assms(1) t assms(3)] show ?thesis by (simp add: s' emit_def)
qed

lemma fees_pct:
  "\<forall>s'. fees_exec this sender c s = Inr s' \<longrightarrow> discountPercentage s \<le> 100 \<longrightarrow> discountPercentage s' \<le> 100"
  "discountPercentage s \<le> 100 \<longrightarrow> discountPercentage (fees_run this txs s) \<le> 100"
proof (induction this sender c s and this txs s rule: fees_exec_fees_run.induct)
  case (1 this sender v user amount feeType s)
  show ?case
    using collectFee_pct [where callee = "\<lambda>s'. None"] by auto
next
  case (2 this sender v cbs user amount feeType s)
  have cb: "\<forall>t t'. (\<lambda>s'. Some (fees_run this cbs s')) t = Some t' \<longrightarrow> discountPercentage t \<le> 100
      \<longrightarrow> discountPercentage t' \<le> 100"
    using 2 by auto
  show ?case
    using collectFee_pct [where callee = "\<lambda>s'. Some (fees_run this cbs s')", OF cb] by auto
next
  case (3 this sender s)
  show ?case
    using distributeFees_pct [where callee = "\<lambda>s'. None"] by auto
next
  case (4 this sender cbs s)
  have cb: "\<forall>t t'. (\<lambda>s'. Some (fees_run this cbs s')) t = Some t' \<longrightarrow> discountPercentage t \<le> 100
      \<longrightarrow> discountPercentage t' \<le> 100"
    using 4 by auto
  show ?case
    using distributeFees_pct [where callee = "\<lambda>s'. Some (fees_run this cbs s')", OF cb] by auto
next
  case (13 this sender c txs s)
  then show ?case by (auto simp: state_after_def split: sum.splits)
qed (auto simp: updateFeeConfig_def updateTreasury_def addDiscountedUser_def
      removeDiscountedUser_def updateDiscountPercentage_def receive_ether_def emit_def Let_def
      gate_exec_pct split: if_splits)

lemma fees_run_pct:
  "discountPercentage s \<le> 100 \<Longrightarrow> discountPercentage (fees_run this txs s) \<le> 100"
  using fees_pct(2) by blast

lemma init_pct:
  "OGFees_initialize sender t b n sh m pct = Inr s \<Longrightarrow> discountPercentage s \<le> 100"
  by (auto simp: OGFees_initialize_def grantRole_internal_def emit_def split: if_splits)

lemma discount_le:
  assumes "d \<le> (100::uint256)" "unat amount * unat d < 2 ^ 256"
  shows "(amount * d) div 100 \<le> amount"
    and "unat (amount - (amount * d) div 100) = unat amount - unat amount * unat d div 100"
proof -
  have um: "unat (amount * d) = unat amount * unat d"
    using assms(2) unat_mult_lem [of amount d] by simp
  have d: "unat d \<le> 100" using assms(1) by (simp add: word_le_nat_alt)
  have ud: "unat ((amount * d) div 100) = unat amount * unat d div 100"
    by (simp add: unat_div um)
  have "unat amount * unat d div 100 \<le> unat amount"
  proof -
    have "unat amount * unat d \<le> unat amount * 100" using d by simp
    then have "unat amount * unat d div 100 \<le> unat amount * 100 div 100" by (rule div_le_mono)
    then show ?thesis by simp
  qed
  then show le: "(amount * d) div 100 \<le> amount" by (simp add: word_le_nat_alt ud)
  show "unat (amount - (amount * d) div 100) = unat amount - unat amount * unat d div 100"
    using le by (simp add: unat_sub ud)
qed

lemma applyDiscount_ok:
  assumes "discountedUsers s p" "discountPercentage s \<le> 100"
    "unat amount * unat (discountPercentage s) < 2 ^ 256"
  shows "applyDiscount s p amount = Inr (amount - (amount * discountPercentage s) div 100)"
  using assms discount_le(1) [OF assms(2,3)]
  by (simp add: applyDiscount_def checked_mul_def checked_sub_def)

lemma applyDiscount_overflow:
  assumes "discountedUsers s p" "\<not> unat amount * unat (discountPercentage s) < 2 ^ 256"
  shows "applyDiscount s p amount = Inl Panic_arithmetic"
  using assms by (simp add: applyDiscount_def checked_mul_def)

lemma collectFee_short:
  assumes "\<not> paused s" "hasRole s FEE_MANAGER_ROLE sender" "msg_value < amount"
  shows "collectFee this sender msg_value callee user amount feeType s = Inl Insufficient_fee"
  using assms by (auto simp: collectFee_def Let_def hasRole_def)

lemma collectFee_exact:
  assumes "\<not> paused s" "hasRole s FEE_MANAGER_ROLE sender"
  shows "collectFee this sender amount callee user amount feeType s =
      Inr (s\<lparr>log := log s @ [FeeCollected user amount feeType], balance := balance s + unat amount\<rparr>)"
  using assms by (auto simp: collectFee_def Let_def hasRole_def emit_def)

lemma collectFee_excess_other:
  assumes "\<not> paused s" "hasRole s FEE_MANAGER_ROLE sender" "amount < msg_value" "user \<noteq> this"
  shows "collectFee this sender msg_value callee user amount feeType s =
      (case callee (s\<lparr>log := log s @ [FeeCollected user amount feeType],
                       sent := sent s @ [(user, unat msg_value - unat amount)],
                       balance := balance s + unat amount\<rparr>) of
         None \<Rightarrow> Inl Failed_to_return_excess_fee
       | Some s2 \<Rightarrow> Inr s2)"
proof -
  have le: "amount \<le> msg_value" using assms(3) by simp
  then have u: "unat (msg_value - amount) = unat msg_value - unat amount" by (simp add: unat_sub)
  have le': "unat amount \<le> unat msg_value" using le by (simp add: word_le_nat_alt)
  then have b: "balance s + unat msg_value - (unat msg_value - unat amount) = balance s + unat amount"
    and c: "\<not> balance s + unat msg_value < unat msg_value - unat amount"
    by simp_all
  show ?thesis
    using assms le
    by (simp add: collectFee_def send_value_def Let_def hasRole_def emit_def u b c)
qed

lemma collectFee_excess_self:
  assumes "\<not> paused s" "hasRole s FEE_MANAGER_ROLE sender" "amount < msg_value"
  shows "collectFee this sender msg_value callee this amount feeType s =
      Inr (s\<lparr>log := log s @ [FeeCollected this amount feeType],
            balance := balance s + unat msg_value,
            sent := sent s @ [(this, unat msg_value - unat amount)]\<rparr>)"
proof -
  have le: "amount \<le> msg_value" using assms(3) by simp
  then have u: "unat (msg_value - amount) = unat msg_value - unat amount" by (simp add: unat_sub)
  have c: "\<not> balance s + unat msg_value < unat msg_value - unat amount" by simp
  show ?thesis
    using assms le
    by (simp add: collectFee_def send_value_def Let_def hasRole_def emit_def u c)
qed

lemma fees_exec_callee:
  "fees_exec this sender (CollectFee v out user amount feeType) s
     = collectFee this sender v (callee_of this out) user amount feeType s"
  "fees_exec this sender (DistributeFees out) s = distributeFees this sender (callee_of this out) s"
  by (cases out, simp_all add: callee_of_def)+

lemma calc_ok:
  assumes "unat sz * unat (baseStorageFee (feeConfig s)) + unat (networkFee (feeConfig s)) < 2 ^ 256"
  shows "\<exists>fee. calculateStorageFee s sz = Inr fee
     \<and> unat fee = max (unat sz * unat (baseStorageFee (feeConfig s)) + unat (networkFee (feeConfig s))) (unat (minimumFee (feeConfig s)))"
proof -
  let ?b = "baseStorageFee (feeConfig s)" and ?n = "networkFee (feeConfig s)"
  from assms have m: "unat sz * unat ?b < 2 ^ 256" by simp
  then have um: "unat (sz * ?b) = unat sz * unat ?b"
    using unat_mult_lem [of sz ?b] by simp
  with assms have "unat (sz * ?b) + unat ?n < 2 ^ 256" by simp
  then have ua: "unat (sz * ?b + ?n) = unat sz * unat ?b + unat ?n"
    using unat_add_lem [of "sz * ?b" ?n] um by simp
  show ?thesis
    using m assms um ua
    by (auto simp: calculateStorageFee_def checked_mul_def checked_add_def word_less_nat_alt max_def)
qed

lemma calc_overflow:
  assumes "\<not> unat sz * unat (baseStorageFee (feeConfig s)) + unat (networkFee (feeConfig s)) < 2 ^ 256"
  shows "calculateStorageFee s sz = Inl Panic_arithmetic"
proof (cases "unat sz * unat (baseStorageFee (feeConfig s)) < 2 ^ 256")
  case False
  then show ?thesis by (simp add: calculateStorageFee_def checked_mul_def)
next
  case True
  then have "unat (sz * baseStorageFee (feeConfig s)) = unat sz * unat (baseStorageFee (feeConfig s))"
    using unat_mult_lem [of sz "baseStorageFee (feeConfig s)"] by simp
  then show ?thesis using True assms
    by (simp add: calculateStorageFee_def checked_mul_def checked_add_def)
qed

lemma unat_eq_numeralD: "unat (w::uint256) = n \<Longrightarrow> w = of_nat n"
  by auto

lemma demo_fees_init:
  "OGFees_initialize 101 109 2 5 1 100 50 = Inr (projr (OGFees_initialize 101 109 2 5 1 100 50))"
  by (simp add: OGFees_initialize_def)

subsection \<open>The quota invariant\<close>

lemmas registry_defs = register_def updateUsedStorage_def updateStorageLimit_def
  updateDefaultStorageLimit_def OGRegistry_initialize_def zero_UserProfile_def
  state_after_def Let_def

lemma gate_exec_users:
  "gate_exec sender c s = Inr s' \<Longrightarrow> users s' = users (s::OGRegistry)"
  by (cases c) (auto simp: gate_defs split: if_splits)

lemma registry_exec_quota:
  assumes "quota_inv s" "registry_exec sender now c s = Inr s'"
  shows "quota_inv s'"
proof (cases c)
  case (RegistryGate g)
  with assms(2) have "gate_exec sender g s = Inr s'" by simp
  from gate_exec_users [OF this] show ?thesis using assms(1) by (simp add: quota_inv_def)
qed (use assms in \<open>auto simp: quota_inv_def register_def updateUsedStorage_def
       updateStorageLimit_def updateDefaultStorageLimit_def emit_def split: if_splits\<close>)

lemma registry_init_quota: "quota_inv (OGRegistry_initialize deployer limit)"
  by (simp add: quota_inv_def OGRegistry_initialize_def grantRole_internal_def emit_def
      hasRole_def zero_UserProfile_def)

lemma registry_run_quota:
  "quota_inv s \<Longrightarrow> quota_inv (registry_run txs s)"
proof (induction txs arbitrary: s)
  case Nil
  then show ?case by simp
next
  case (Cons tx txs)
  obtain sender now c where tx: "tx = (sender, now, c)" by (cases tx)
  have "quota_inv (state_after s (registry_exec sender now c s))"
    using Cons.prems by (auto simp: state_after_def split: sum.splits dest: registry_exec_quota)
  then show ?case using Cons.IH by (simp add: tx)
qed

lemma demo_registry_facts:
  "isRegistered (users demo_registry 2)" "storageLimit (users demo_registry 2) = 1000"
  "usedStorage (users demo_registry 2) = 500" "hasRole demo_registry VERIFIER_ROLE 3"
  "hasRole demo_registry ADMIN_ROLE 1" "\<not> paused demo_registry"
  "hasRole demo_registry DEFAULT_ADMIN_ROLE 1"
  by (simp_all add: demo_registry_def registry_defs gate_defs)

subsection \<open>Grantees and deleted identifiers\<close>




lemma storage_exec_absent:
  assumes "\<not> exists (files s fid)" "\<not> derives k fid (sender, now, c)"
    "storage_exec k sender now c s = Inr s'"
  shows "\<not> exists (files s' fid)"
proof (cases c)
  case (UploadFile h)
  with assms(3) obtain fid' where u: "uploadFile k sender now h s = Inr (s', fid')"
    by (auto split: sum.splits)
  note f = uploadFile_Inr [OF u]
  from assms(2) UploadFile f(1) have "fid \<noteq> fid'" by auto
  then have "files s' fid = files s fid" unfolding f(3) by simp
  then show ?thesis using assms(1) by simp
next
  case (ShareFile fid' user)
  with assms(3) have "shareFile sender fid' user s = Inr s'" by simp
  note f = shareFile_Inr [OF this]
  show ?thesis using assms(1) unfolding f(2) by auto
next
  case (UnshareFile fid' user)
  with assms(3) have "unshareFile sender fid' user s = Inr s'" by simp
  note f = unshareFile_Inr [OF this]
  show ?thesis using assms(1) unfolding f(1) by auto
next
  case (DeleteFile fid')
  with assms(3) have "deleteFile sender fid' s = Inr s'" by simp
  note f = deleteFile_Inr [OF this]
  show ?thesis using assms(1) unfolding f(5) by (auto simp: delete_File_def)
next
  case (StorageGate g)
  with assms(3) have "gate_exec sender g s = Inr s'" by simp
  from gate_exec_storage [OF this] show ?thesis using assms(1) by simp
qed

lemma storage_run_absent:
  "\<not> exists (files s fid) \<Longrightarrow> \<forall>tx \<in> set txs. \<not> derives k fid tx \<Longrightarrow>
     \<not> exists (files (storage_run k txs s) fid)"
proof (induction txs arbitrary: s)
  case Nil
  then show ?case by simp
next
  case (Cons tx txs)
  obtain sender now c where tx: "tx = (sender, now, c)" by (cases tx)
  from Cons.prems(2) have nd: "\<not> derives k fid (sender, now, c)" by (simp add: tx)
  have "\<not> exists (files (state_after s (storage_exec k sender now c s)) fid)"
    using Cons.prems(1) storage_exec_absent [OF Cons.prems(1) nd]
    by (auto simp: state_after_def split: sum.splits)
  then show ?case using Cons.IH Cons.prems(2) by (simp add: tx)
qed

lemma uploadFile_after_delete:
  assumes "deleteFile sender fid s = Inr s'" "hash \<noteq> []" "k hash caller now = fid"
  shows "\<exists>s''. uploadFile k caller now hash s' = Inr (s'', fid)
           \<and> exists (files s'' fid) \<and> owner (files s'' fid) = caller
           \<and> sharedWith (files s'' fid) = sharedWith (files s fid)"
proof -
  note f = deleteFile_Inr [OF assms(1)]
  have "\<not> paused s'" using f(3,4) by simp
  moreover have "\<not> exists (files s' fid)" unfolding f(5) by (simp add: delete_File_def)
  moreover have "sharedWith (files s' fid) = sharedWith (files s fid)"
    unfolding f(5) by (simp add: delete_File_def)
  ultimately show ?thesis using assms(2,3)
    by (auto simp: uploadFile_def Let_def emit_def)
qed

lemma uploadFile_absent:
  assumes "hash \<noteq> []" "k hash caller now = fid" "\<not> paused t" "\<not> exists (files t fid)"
  shows "\<exists>t'. uploadFile k caller now hash t = Inr (t', fid)
           \<and> exists (files t' fid) \<and> owner (files t' fid) = caller"
  using assms by (auto simp: uploadFile_def Let_def emit_def)

subsection \<open>The pause gate\<close>

lemma gated_when_paused:
  assumes "paused st" "paused rg" "paused fe"
  shows "uploadFile keccak a now h st = Inl Pausable_paused"
    "shareFile a fileId u st = Inl Pausable_paused"
    "unshareFile a fileId u st = Inl Pausable_paused"
    "deleteFile a fileId st = Inl Pausable_paused"
    "register a now name rg = Inl Pausable_paused"
    "collectFee this a v callee u amount feeType fe = Inl Pausable_paused"
  using assms
  by (simp_all add: uploadFile_def shareFile_def unshareFile_def deleteFile_def register_def
      collectFee_def Let_def)

lemma gate_admin_when_paused:
  "paused g \<and> hasRole g ADMIN_ROLE a \<longrightarrow>
     unpause a g = Inr (emit (Unpaused a) (g\<lparr>paused := False\<rparr>)) \<and> pause a g = Inl Pausable_paused"
  "hasRole g DEFAULT_ADMIN_ROLE a \<longrightarrow>
     grantRole a r account g = Inr (grantRole_internal a r account g)
     \<and> hasRole (grantRole_internal a r account g) r account
     \<and> paused (grantRole_internal a r account g) = paused g"
  "hasRole g DEFAULT_ADMIN_ROLE a \<longrightarrow>
     revokeRole a r account g = Inr (revokeRole_internal a r account g)
     \<and> \<not> hasRole (revokeRole_internal a r account g) r account
     \<and> paused (revokeRole_internal a r account g) = paused g"
  by (auto simp: gate_defs)

lemma registry_not_gated:
  "updateUsedStorage a u n (rg\<lparr>paused := b\<rparr>)
     = map_sum id (\<lambda>s. s\<lparr>paused := b\<rparr>) (updateUsedStorage a u n rg)"
  "updateStorageLimit a u n (rg\<lparr>paused := b\<rparr>)
     = map_sum id (\<lambda>s. s\<lparr>paused := b\<rparr>) (updateStorageLimit a u n rg)"
  "updateDefaultStorageLimit a n (rg\<lparr>paused := b\<rparr>)
     = map_sum id (\<lambda>s. s\<lparr>paused := b\<rparr>) (updateDefaultStorageLimit a n rg)"
  by (simp_all add: updateUsedStorage_def updateStorageLimit_def updateDefaultStorageLimit_def
      hasRole_def emit_def)

lemma send_value_not_gated:
  assumes "\<forall>t. callee (t\<lparr>paused := b\<rparr>) = map_option (\<lambda>t'. t'\<lparr>paused := b\<rparr>) (callee t)"
  shows "send_value this callee to v (s\<lparr>paused := b\<rparr>)
     = map_option (\<lambda>t'. t'\<lparr>paused := b\<rparr>) (send_value this callee to v s)"
proof (cases "balance s < v \<or> to = this")
  case True
  then show ?thesis by (auto simp: send_value_def Let_def)
next
  case False
  let ?t = "s\<lparr>sent := sent s @ [(to, v)], balance := balance s - v\<rparr>"
  have e: "s\<lparr>paused := b, sent := sent s @ [(to, v)], balance := balance s - v\<rparr> = ?t\<lparr>paused := b\<rparr>"
    by simp
  have "send_value this callee to v (s\<lparr>paused := b\<rparr>) = callee (?t\<lparr>paused := b\<rparr>)"
    using False unfolding e [symmetric] by (simp add: send_value_def Let_def)
  moreover have "send_value this callee to v s = callee ?t"
    using False by (simp add: send_value_def Let_def)
  ultimately show ?thesis using assms by simp
qed

lemma distributeFees_not_gated:
  assumes "\<forall>t. callee (t\<lparr>paused := b\<rparr>) = map_option (\<lambda>t'. t'\<lparr>paused := b\<rparr>) (callee t)"
  shows "distributeFees this a callee (fe\<lparr>paused := b\<rparr>)
     = map_sum id (\<lambda>s. s\<lparr>paused := b\<rparr>) (distributeFees this a callee fe)"
proof (cases "hasRole fe ADMIN_ROLE a \<and> balance fe > 0")
  case False
  then show ?thesis by (auto simp: distributeFees_def hasRole_def Let_def)
next
  case True
  note sv = send_value_not_gated [OF assms, of this "treasury fe" "balance fe" fe]
  show ?thesis
  proof (cases "send_value this callee (treasury fe) (balance fe) fe")
    case None
    with True sv show ?thesis by (simp add: distributeFees_def hasRole_def Let_def)
  next
    case (Some t)
    with True sv show ?thesis by (simp add: distributeFees_def hasRole_def Let_def emit_def)
  qed
qed

lemma fees_not_gated:
  "updateFeeConfig a c1 c2 c3 c4 (fe\<lparr>paused := b\<rparr>)
     = map_sum id (\<lambda>s. s\<lparr>paused := b\<rparr>) (updateFeeConfig a c1 c2 c3 c4 fe)"
  "updateTreasury a t (fe\<lparr>paused := b\<rparr>)
     = map_sum id (\<lambda>s. s\<lparr>paused := b\<rparr>) (updateTreasury a t fe)"
  "addDiscountedUser a u (fe\<lparr>paused := b\<rparr>)
     = map_sum id (\<lambda>s. s\<lparr>paused := b\<rparr>) (addDiscountedUser a u fe)"
  "removeDiscountedUser a u (fe\<lparr>paused := b\<rparr>)
     = map_sum id (\<lambda>s. s\<lparr>paused := b\<rparr>) (removeDiscountedUser a u fe)"
  "updateDiscountPercentage a pct (fe\<lparr>paused := b\<rparr>)
     = map_sum id (\<lambda>s. s\<lparr>paused := b\<rparr>) (updateDiscountPercentage a pct fe)"
  by (simp_all add: updateFeeConfig_def updateTreasury_def addDiscountedUser_def
      removeDiscountedUser_def updateDiscountPercentage_def hasRole_def emit_def Let_def)

subsection \<open>Evaluating the concrete states\<close>

lemmas storage_defs = uploadFile_def shareFile_def unshareFile_def deleteFile_def delete_File_def
  decrement_def increment_def sample_keccak_def OGStorage_initialize_def zero_File_def
  state_after_def Let_def

lemmas fees_defs = OGFees_initialize_def collectFee_def distributeFees_def send_value_def
  callee_of_def updateFeeConfig_def updateTreasury_def addDiscountedUser_def
  removeDiscountedUser_def updateDiscountPercentage_def receive_ether_def state_after_def Let_def

lemma demo_storage_facts:
  "exists (files demo_storage 1003)" "owner (files demo_storage 1003) = 1"
  "sharedWith (files demo_storage 1003) 2" "\<not> sharedWith (files demo_storage 1003) 3"
  "\<not> exists (files demo_storage 5)" "\<not> paused demo_storage"
  by (simp_all add: demo_storage_def storage_defs gate_defs)

lemma demo_fees_facts:
  "baseStorageFee (feeConfig demo_fees) = 2" "networkFee (feeConfig demo_fees) = 5"
  "minimumFee (feeConfig demo_fees) = 100" "discountPercentage demo_fees = 50"
  "discountedUsers demo_fees 107" "\<not> discountedUsers demo_fees 108" "\<not> paused demo_fees"
  "hasRole demo_fees FEE_MANAGER_ROLE 101" "hasRole demo_fees ADMIN_ROLE 101"
  "balance demo_fees = 0" "treasury demo_fees = 109" "sent demo_fees = []"
  by (simp_all add: demo_fees_def fees_defs gate_defs)

lemma demo_storage_more:
  "fileCounter demo_storage = 1" "userFiles demo_storage 1 = [1003]"
  by (simp_all add: demo_storage_def storage_defs gate_defs)

lemma demo_delete: "deleteFile 1 1003 demo_storage = Inr demo_deleted"
proof -
  have "\<not> isl (deleteFile 1 1003 demo_storage)"
    by (simp add: deleteFile_def decrement_def Let_def demo_storage_facts demo_storage_more)
  then obtain s' where s': "deleteFile 1 1003 demo_storage = Inr s'"
    by (cases "deleteFile 1 1003 demo_storage") auto
  then have "demo_deleted = s'" by (simp add: demo_deleted_def state_after_def)
  with s' show ?thesis by simp
qed

lemma demo_deleted_facts:
  "\<not> exists (files demo_deleted 1003)" "sharedWith (files demo_deleted 1003) 2"
  "rootHash (files demo_deleted 1003) = []" "owner (files demo_deleted 1003) = 0"
  "timestamp (files demo_deleted 1003) = 0" "\<not> paused demo_deleted"
  "getUserFiles demo_deleted 1 = []" "getTotalFiles demo_deleted = 0"
  using deleteFile_Inr [OF demo_delete]
  by (simp_all add: delete_File_def getUserFiles_def getTotalFiles_def remove_scan.simps
      demo_storage_facts demo_storage_more)

lemma demo_keccak: "sample_keccak ''Qm'' 1 1000 = 1003"
  by (simp add: sample_keccak_def)

lemma demo_reupload:
  "uploadFile sample_keccak 1 1000 ''Qm'' demo_deleted = Inr (demo_reuploaded, 1003)"
proof -
  from uploadFile_after_delete
    [where k = sample_keccak and hash = "''Qm''" and caller = 1 and now = 1000, OF demo_delete]
    demo_keccak
  obtain s'' where s'': "uploadFile sample_keccak 1 1000 ''Qm'' demo_deleted = Inr (s'', 1003)"
    by auto
  then have "demo_reuploaded = s''" by (simp add: demo_reuploaded_def state_after_def)
  with s'' show ?thesis by simp
qed

lemma demo_reuploaded_facts:
  "exists (files demo_reuploaded 1003)" "owner (files demo_reuploaded 1003) = 1"
  "sharedWith (files demo_reuploaded 1003) 2"
  using uploadFile_Inr [OF demo_reupload]
  by (simp_all add: demo_deleted_facts)

lemma demo_paused_facts:
  "paused demo_storage_paused" "paused demo_registry_paused" "paused demo_fees_paused"
  "hasRole demo_registry_paused VERIFIER_ROLE 3" "hasRole demo_registry_paused ADMIN_ROLE 1"
  "hasRole demo_registry_paused DEFAULT_ADMIN_ROLE 1"
  "isRegistered (users demo_registry_paused 2)" "usedStorage (users demo_registry_paused 2) = 500"
  "storageLimit (users demo_registry_paused 2) = 1000"
  "hasRole demo_fees_paused ADMIN_ROLE 101" "balance demo_fees_paused = 40"
  "treasury demo_fees_paused = 109"
  by (simp_all add: demo_storage_paused_def demo_registry_paused_def demo_fees_paused_def
      demo_storage_def demo_registry_def demo_fees_def uploadFile_def shareFile_def
      sample_keccak_def OGStorage_initialize_def zero_File_def register_def updateUsedStorage_def
      OGRegistry_initialize_def zero_UserProfile_def fees_defs gate_defs)

lemma demo_deleted_run:
  "demo_deleted =
     storage_run sample_keccak
       [(1, 1000, UploadFile ''Qm''), (1, 1000, ShareFile 1003 2), (1, 1000, DeleteFile 1003)]
       (OGStorage_initialize 1)"
  by (simp add: demo_deleted_def demo_storage_def)

lemma demo_later_facts:
  "\<not> paused demo_later" "\<not> exists (files demo_later 1003)"
  "exists (files demo_later 1004)" "exists (files demo_later 1005)"
  "sharedWith (files demo_later 1004) 4" "owner (files demo_later 1005) = 2"
  by (simp_all add: demo_later_def demo_deleted_run storage_defs gate_defs remove_scan.simps)

lemma demo_fees_paused_sent: "sent demo_fees_paused = []"
  by (simp add: demo_fees_paused_def demo_fees_def fees_defs gate_defs)

section \<open>The claims\<close>

text \<open>
  C1. While a ledger is paused, its pause-gated operations abort with the paused error:
  \<open>uploadFile\<close>, \<open>shareFile\<close>, \<open>unshareFile\<close> and \<open>deleteFile\<close> of the file registry,
  \<open>register\<close> of the user registry and \<open>collectFee\<close> of the fee ledger; an aborted call
  leaves the state as it was. While paused, \<open>unpause\<close> succeeds for an admin, and
  \<open>grantRole\<close> and \<open>revokeRole\<close> succeed for the super-admin, whatever the pause switch
  says; \<open>pause\<close> on a ledger that is already paused aborts with the paused error. The
  role-gated operations \<open>updateUsedStorage\<close>, \<open>updateStorageLimit\<close>,
  \<open>updateDefaultStorageLimit\<close>, \<open>distributeFees\<close>, \<open>updateFeeConfig\<close>,
  \<open>updateTreasury\<close>, \<open>addDiscountedUser\<close>, \<open>removeDiscountedUser\<close> and
  \<open>updateDiscountPercentage\<close> carry no pause gate: setting the pause switch of a state
  to any value changes neither whether the call succeeds, nor its error, nor its effect
  (for \<open>distributeFees\<close>, as long as what the treasury does when it receives the sweep
  does not itself depend on the switch).
\<close>

theorem pause_gate_scope:
  assumes "paused st" and "paused rg" and "paused fe"
  shows "uploadFile keccak a now h st = Inl Pausable_paused
   \<and> shareFile a fileId u st = Inl Pausable_paused
   \<and> unshareFile a fileId u st = Inl Pausable_paused
   \<and> deleteFile a fileId st = Inl Pausable_paused
   \<and> register a now name rg = Inl Pausable_paused
   \<and> collectFee this a v callee u amount feeType fe = Inl Pausable_paused
   \<and> (paused g \<and> hasRole g ADMIN_ROLE a \<longrightarrow>
        unpause a g = Inr (emit (Unpaused a) (g\<lparr>paused := False\<rparr>))
        \<and> pause a g = Inl Pausable_paused)
   \<and> (hasRole g DEFAULT_ADMIN_ROLE a \<longrightarrow>
        grantRole a r account g = Inr (grantRole_internal a r account g)
        \<and> hasRole (grantRole_internal a r account g) r account
        \<and> paused (grantRole_internal a r account g) = paused g)
   \<and> (hasRole g DEFAULT_ADMIN_ROLE a \<longrightarrow>
        revokeRole a r account g = Inr (revokeRole_internal a r account g)
        \<and> \<not> hasRole (revokeRole_internal a r account g) r account
        \<and> paused (revokeRole_internal a r account g) = paused g)
   \<and> updateUsedStorage a u n (rg'\<lparr>paused := b\<rparr>)
        = map_sum id (\<lambda>s. s\<lparr>paused := b\<rparr>) (updateUsedStorage a u n rg')
   \<and> updateStorageLimit a u n (rg'\<lparr>paused := b\<rparr>)
        = map_sum id (\<lambda>s. s\<lparr>paused := b\<rparr>) (updateStorageLimit a u n rg')
   \<and> updateDefaultStorageLimit a n (rg'\<lparr>paused := b\<rparr>)
        = map_sum id (\<lambda>s. s\<lparr>paused := b\<rparr>) (updateDefaultStorageLimit a n rg')
   \<and> ((\<forall>t. callee (t\<lparr>paused := b\<rparr>) = map_option (\<lambda>t'. t'\<lparr>paused := b\<rparr>) (callee t)) \<longrightarrow>
        distributeFees this a callee (fe'\<lparr>paused := b\<rparr>)
          = map_sum id (\<lambda>s. s\<lparr>paused := b\<rparr>) (distributeFees this a callee fe'))
   \<and> updateFeeConfig a c1 c2 c3 c4 (fe'\<lparr>paused := b\<rparr>)
        = map_sum id (\<lambda>s. s\<lparr>paused := b\<rparr>) (updateFeeConfig a c1 c2 c3 c4 fe')
   \<and> updateTreasury a t (fe'\<lparr>paused := b\<rparr>)
        = map_sum id (\<lambda>s. s\<lparr>paused := b\<rparr>) (updateTreasury a t fe')
   \<and> addDiscountedUser a u (fe'\<lparr>paused := b\<rparr>)
        = map_sum id (\<lambda>s. s\<lparr>paused := b\<rparr>) (addDiscountedUser a u fe')
   \<and> removeDiscountedUser a u (fe'\<lparr>paused := b\<rparr>)
        = map_sum id (\<lambda>s. s\<lparr>paused := b\<rparr>) (removeDiscountedUser a u fe')
   \<and> updateDiscountPercentage a pct (fe'\<lparr>paused := b\<rparr>)
        = map_sum id (\<lambda>s. s\<lparr>paused := b\<rparr>) (updateDiscountPercentage a pct fe')"
  using distributeFees_not_gated [of callee b this a fe']
  by (intro conjI gated_when_paused [OF assms] gate_admin_when_paused registry_not_gated
      fees_not_gated) blast

theorem pause_gate_scope_witness:
  "paused demo_storage_paused \<and> paused demo_registry_paused \<and> paused demo_fees_paused
 \<and> uploadFile sample_keccak 1 2000 ''Qn'' demo_storage_paused = Inl Pausable_paused
 \<and> deleteFile 1 1003 demo_storage_paused = Inl Pausable_paused
 \<and> register 4 2000 ''bob'' demo_registry_paused = Inl Pausable_paused
 \<and> collectFee 100 1 150 Some 108 100 ''storage'' demo_fees_paused = Inl Pausable_paused
 \<and> hasRole demo_registry_paused ADMIN_ROLE 1
 \<and> unpause 1 demo_registry_paused
      = Inr (emit (Unpaused 1) (demo_registry_paused\<lparr>paused := False\<rparr>))
 \<and> pause 1 demo_registry_paused = Inl Pausable_paused
 \<and> hasRole demo_registry_paused DEFAULT_ADMIN_ROLE 1
 \<and> grantRole 1 VERIFIER_ROLE 5 demo_registry_paused
      = Inr (grantRole_internal 1 VERIFIER_ROLE 5 demo_registry_paused)
 \<and> distributeFees 100 1 Some (demo_fees\<lparr>paused := True\<rparr>)
      = map_sum id (\<lambda>s. s\<lparr>paused := True\<rparr>) (distributeFees 100 1 Some demo_fees)"
  using pause_gate_scope [where st = demo_storage_paused and rg = demo_registry_paused
      and fe = demo_fees_paused and keccak = sample_keccak and a = 1 and now = 2000
      and h = "''Qn''" and fileId = 1003 and u = 108 and name = "''bob''" and v = 150
      and callee = Some and this = 100 and amount = 100 and feeType = "''storage''"
      and g = demo_registry_paused and r = VERIFIER_ROLE and account = 5
      and b = True and fe' = demo_fees]
    pause_gate_scope [where st = demo_storage_paused and rg = demo_registry_paused
      and fe = demo_fees_paused and keccak = sample_keccak and a = 4 and now = 2000
      and h = "''Qn''" and fileId = 1003 and u = 108 and name = "''bob''" and v = 150
      and callee = Some and this = 100 and amount = 100 and feeType = "''storage''"
      and g = demo_registry_paused and r = VERIFIER_ROLE and account = 5]
  by (simp add: demo_paused_facts)

text \<open>
  The pause switch does not gate every mutating operation: on a paused user registry a
  verifier's \<open>updateUsedStorage\<close> goes through and changes the usage from 500 to 700, and
  on a paused fee ledger the admin's \<open>distributeFees\<close> sweeps the balance of 40 to the
  treasury, an account that accepts the transfer and makes no call. And \<open>pause\<close> itself
  does not succeed on the paused registry.
\<close>

theorem paused_role_operations_counterexample:
  "paused demo_registry_paused \<and> usedStorage (users demo_registry_paused 2) = 500
 \<and> updateUsedStorage 3 2 700 demo_registry_paused \<noteq> Inl Pausable_paused
 \<and> usedStorage (users (state_after demo_registry_paused
                         (updateUsedStorage 3 2 700 demo_registry_paused)) 2) = 700
 \<and> paused demo_fees_paused \<and> balance demo_fees_paused = 40
 \<and> treasury demo_fees_paused = 109
 \<and> fees_exec 100 101 (DistributeFees (Call_returned [])) demo_fees_paused \<noteq> Inl Pausable_paused
 \<and> balance (state_after demo_fees_paused
               (fees_exec 100 101 (DistributeFees (Call_returned [])) demo_fees_paused)) = 0
 \<and> sent (state_after demo_fees_paused
            (fees_exec 100 101 (DistributeFees (Call_returned [])) demo_fees_paused)) = [(109, 40)]
 \<and> hasRole demo_registry_paused ADMIN_ROLE 1
 \<and> pause 1 demo_registry_paused = Inl Pausable_paused"
  by (simp add: demo_paused_facts updateUsedStorage_def distributeFees_def send_value_def
      pause_def state_after_def emit_def Let_def demo_fees_paused_sent)

text \<open>
  C2. After a successful \<open>deleteFile\<close> the record of the identifier does not exist and
  the registry is not paused. The record stays absent through every run of transactions
  none of which is an upload deriving that identifier. An upload of a non-empty content
  hash that derives the identifier succeeds and creates a record under the identifier
  anew, owned by the caller, in every state in which the registry is not paused and the
  record is absent: right after the deletion, and after every such run that leaves the
  registry not paused.
\<close>

theorem deleted_id_absent_until_rederived:
  assumes "deleteFile sender fileId s = Inr s'"
  shows "\<not> exists (files s' fileId) \<and> \<not> paused s'
   \<and> ((\<forall>tx \<in> set txs. \<not> derives keccak fileId tx) \<longrightarrow>
        \<not> exists (files (storage_run keccak txs s') fileId))
   \<and> (hash \<noteq> [] \<and> keccak hash caller now = fileId \<longrightarrow>
        (\<exists>s''. uploadFile keccak caller now hash s' = Inr (s'', fileId)
           \<and> exists (files s'' fileId) \<and> owner (files s'' fileId) = caller))
   \<and> ((\<forall>tx \<in> set txs. \<not> derives keccak fileId tx)
        \<and> \<not> paused (storage_run keccak txs s')
        \<and> hash \<noteq> [] \<and> keccak hash caller now = fileId \<longrightarrow>
        (\<exists>t'. uploadFile keccak caller now hash (storage_run keccak txs s') = Inr (t', fileId)
           \<and> exists (files t' fileId) \<and> owner (files t' fileId) = caller))
   \<and> (hash \<noteq> [] \<and> keccak hash caller now = fileId \<and> \<not> paused t \<and> \<not> exists (files t fileId) \<longrightarrow>
        (\<exists>t'. uploadFile keccak caller now hash t = Inr (t', fileId)
           \<and> exists (files t' fileId) \<and> owner (files t' fileId) = caller))"
proof -
  note f = deleteFile_Inr [OF assms]
  have gone: "\<not> exists (files s' fileId)"
    unfolding f(5) by (simp add: delete_File_def)
  have open_gate: "\<not> paused s'" using f(3,4) by simp
  have later: "\<not> exists (files (storage_run keccak txs s') fileId)"
    if "\<forall>tx \<in> set txs. \<not> derives keccak fileId tx"
    using storage_run_absent [OF gone that] .
  show ?thesis
    using gone open_gate later
      uploadFile_absent [of hash keccak caller now fileId s']
      uploadFile_absent [of hash keccak caller now fileId "storage_run keccak txs s'"]
      uploadFile_absent [of hash keccak caller now fileId t]
    by blast
qed

theorem deleted_id_absent_until_rederived_witness:
  "deleteFile 1 1003 demo_storage = Inr demo_deleted
 \<and> \<not> exists (files demo_deleted 1003) \<and> \<not> paused demo_deleted

 \<and> exists (files demo_later 1004) \<and> exists (files demo_later 1005)
 \<and> sharedWith (files demo_later 1004) 4
 \<and> \<not> exists (files demo_later 1003) \<and> \<not> paused demo_later
 \<and> (\<exists>s''. uploadFile sample_keccak 1 1000 ''Qm'' demo_deleted = Inr (s'', 1003)
        \<and> exists (files s'' 1003) \<and> owner (files s'' 1003) = 1)
 \<and> (\<exists>t'. uploadFile sample_keccak 1 1000 ''Qm'' demo_later = Inr (t', 1003)
        \<and> exists (files t' 1003) \<and> owner (files t' 1003) = 1)"
  using deleted_id_absent_until_rederived [OF demo_delete,
      where txs = "[(1, 1001, UploadFile ''Qm''), (2, 1000, UploadFile ''Qmx''),
                    (1, 1002, ShareFile 1004 4)]"
        and keccak = sample_keccak and hash = "''Qm''" and caller = 1 and now = 1000
        and t = demo_later, folded demo_later_def]
    demo_delete
  by (simp add: sample_keccak_def demo_later_facts)

text \<open>
  Deletion is not one-way: the owner uploads the same content hash in the block of the
  deletion, the derived identifier is the deleted one, and the record exists again.
\<close>

theorem deleted_id_recreated_counterexample:
  "deleteFile 1 1003 demo_storage = Inr demo_deleted
 \<and> \<not> exists (files demo_deleted 1003)
 \<and> uploadFile sample_keccak 1 1000 ''Qm'' demo_deleted = Inr (demo_reuploaded, 1003)
 \<and> exists (files demo_reuploaded 1003)"
  by (simp add: demo_delete demo_reupload demo_deleted_facts demo_reuploaded_facts)

text \<open>
  C3. On the run upload, share with address 2, delete: \<open>deleteFile\<close> clears the content
  hash, the owner, the timestamp and the existence flag, and the grant of address 2 is
  still stored. When the owner uploads the same content hash in the same block, the record
  exists again under the same identifier and address 2 has access to it without a new
  \<open>shareFile\<close>.
\<close>

theorem deleteFile_keeps_grants:
  "sharedWith (files demo_storage 1003) 2
 \<and> deleteFile 1 1003 demo_storage = Inr demo_deleted
 \<and> rootHash (files demo_deleted 1003) = [] \<and> owner (files demo_deleted 1003) = 0
 \<and> timestamp (files demo_deleted 1003) = 0 \<and> \<not> exists (files demo_deleted 1003)
 \<and> sharedWith (files demo_deleted 1003) 2
 \<and> uploadFile sample_keccak 1 1000 ''Qm'' demo_deleted = Inr (demo_reuploaded, 1003)
 \<and> hasAccess demo_reuploaded 1003 2"
  by (simp add: demo_delete demo_reupload demo_storage_facts demo_deleted_facts
      demo_reuploaded_facts hasAccess_def)

text \<open>
  C4. \<open>collectFee\<close>, called by a fee manager while the ledger is not paused. It reverts
  with the insufficient-fee error when the attached value is below the amount. When the
  attached value equals the amount the call returns: \<open>FeeCollected (payer, amount,
  feeType)\<close> is appended to the log and the balance has grown by exactly the amount.
  When the attached value exceeds the amount, the event is logged and the excess is
  sent to the payer:
  \<^item> a payer other than the ledger that reverts makes the whole call revert;
  \<^item> a payer other than the ledger that returns ends the call with the state the ledger
    is in at that moment: when the payer made no call to the ledger, this is the state
    with the event logged, the excess transferred and the balance grown by exactly the
    amount;
  \<^item> when the payer is the ledger itself the refund arrives through its own
    \<open>receive\<close>, and the balance has grown by the whole attached value.
  A reverted call leaves the state as it was.
\<close>

theorem collectFee_cases:
  assumes "\<not> paused s" and "hasRole s FEE_MANAGER_ROLE sender"
  shows "(msg_value < amount \<longrightarrow>
           collectFee this sender msg_value callee payer amount feeType s = Inl Insufficient_fee)
   \<and> (msg_value = amount \<longrightarrow>
        collectFee this sender msg_value callee payer amount feeType s =
          Inr (s\<lparr>log := log s @ [FeeCollected payer amount feeType],
                balance := balance s + unat amount\<rparr>))
   \<and> (amount < msg_value \<and> payer \<noteq> this
        \<and> callee (s\<lparr>log := log s @ [FeeCollected payer amount feeType],
                     sent := sent s @ [(payer, unat msg_value - unat amount)],
                     balance := balance s + unat amount\<rparr>) = None \<longrightarrow>
        collectFee this sender msg_value callee payer amount feeType s
          = Inl Failed_to_return_excess_fee)
   \<and> (amount < msg_value \<and> payer \<noteq> this
        \<and> callee (s\<lparr>log := log s @ [FeeCollected payer amount feeType],
                     sent := sent s @ [(payer, unat msg_value - unat amount)],
                     balance := balance s + unat amount\<rparr>) = Some s2 \<longrightarrow>
        collectFee this sender msg_value callee payer amount feeType s = Inr s2)
   \<and> (amount < msg_value \<and> payer = this \<longrightarrow>
        collectFee this sender msg_value callee payer amount feeType s =
          Inr (s\<lparr>log := log s @ [FeeCollected payer amount feeType],
                balance := balance s + unat msg_value,
                sent := sent s @ [(payer, unat msg_value - unat amount)]\<rparr>))
   \<and> (isl (collectFee this sender msg_value callee payer amount feeType s) \<longrightarrow>
        state_after s (collectFee this sender msg_value callee payer amount feeType s) = s)"
proof (intro conjI impI)
  assume "msg_value < amount"
  then show "collectFee this sender msg_value callee payer amount feeType s = Inl Insufficient_fee"
    by (rule collectFee_short [OF assms])
next
  assume "msg_value = amount"
  then show "collectFee this sender msg_value callee payer amount feeType s =
      Inr (s\<lparr>log := log s @ [FeeCollected payer amount feeType], balance := balance s + unat amount\<rparr>)"
    using collectFee_exact [OF assms] by simp
next
  assume "amount < msg_value \<and> payer \<noteq> this
        \<and> callee (s\<lparr>log := log s @ [FeeCollected payer amount feeType],
                     sent := sent s @ [(payer, unat msg_value - unat amount)],
                     balance := balance s + unat amount\<rparr>) = None"
  then show "collectFee this sender msg_value callee payer amount feeType s
      = Inl Failed_to_return_excess_fee"
    using collectFee_excess_other [OF assms, of amount msg_value payer this callee feeType] by simp
next
  assume "amount < msg_value \<and> payer \<noteq> this
        \<and> callee (s\<lparr>log := log s @ [FeeCollected payer amount feeType],
                     sent := sent s @ [(payer, unat msg_value - unat amount)],
                     balance := balance s + unat amount\<rparr>) = Some s2"
  then show "collectFee this sender msg_value callee payer amount feeType s = Inr s2"
    using collectFee_excess_other [OF assms, of amount msg_value payer this callee feeType] by simp
next
  assume "amount < msg_value \<and> payer = this"
  then show "collectFee this sender msg_value callee payer amount feeType s =
      Inr (s\<lparr>log := log s @ [FeeCollected payer amount feeType],
            balance := balance s + unat msg_value,
            sent := sent s @ [(payer, unat msg_value - unat amount)]\<rparr>)"
    using collectFee_excess_self [OF assms, of amount msg_value this callee feeType] by simp
next
  assume "isl (collectFee this sender msg_value callee payer amount feeType s)"
  then show "state_after s (collectFee this sender msg_value callee payer amount feeType s) = s"
    by (cases "collectFee this sender msg_value callee payer amount feeType s")
       (simp_all add: state_after_def)
qed

theorem collectFee_cases_witness:
  "\<not> paused demo_fees \<and> hasRole demo_fees FEE_MANAGER_ROLE 101
 \<and> collectFee 100 101 99 (callee_of 100 (Call_returned [])) 108 100 ''storage'' demo_fees
      = Inl Insufficient_fee
 \<and> collectFee 100 101 100 (callee_of 100 (Call_returned [])) 108 100 ''storage'' demo_fees
      = Inr (demo_fees\<lparr>log := log demo_fees @ [FeeCollected 108 100 ''storage''],
                      balance := balance demo_fees + 100\<rparr>)
 \<and> collectFee 100 101 150 (callee_of 100 Call_reverted) 108 100 ''storage'' demo_fees
      = Inl Failed_to_return_excess_fee
 \<and> state_after demo_fees
      (collectFee 100 101 150 (callee_of 100 Call_reverted) 108 100 ''storage'' demo_fees)
      = demo_fees
 \<and> collectFee 100 101 150 (callee_of 100 (Call_returned [])) 108 100 ''storage'' demo_fees
      = Inr (demo_fees\<lparr>log := log demo_fees @ [FeeCollected 108 100 ''storage''],
                      sent := sent demo_fees @ [(108, 50)],
                      balance := balance demo_fees + 100\<rparr>)
 \<and> collectFee 100 101 150 (callee_of 100 (Call_returned [])) 100 100 ''storage'' demo_fees
      = Inr (demo_fees\<lparr>log := log demo_fees @ [FeeCollected 100 100 ''storage''],
                      balance := balance demo_fees + 150,
                      sent := sent demo_fees @ [(100, 50)]\<rparr>)"
  using collectFee_cases [where s = demo_fees and sender = 101 and msg_value = 99 and amount = 100
      and this = 100 and callee = "callee_of 100 (Call_returned [])" and payer = 108
      and feeType = "''storage''"]
    collectFee_cases [where s = demo_fees and sender = 101 and msg_value = 100 and amount = 100
      and this = 100 and callee = "callee_of 100 (Call_returned [])" and payer = 108
      and feeType = "''storage''"]
    collectFee_cases [where s = demo_fees and sender = 101 and msg_value = 150 and amount = 100
      and this = 100 and callee = "callee_of 100 Call_reverted" and payer = 108
      and feeType = "''storage''"]
    collectFee_cases [where s = demo_fees and sender = 101 and msg_value = 150 and amount = 100
      and this = 100 and callee = "callee_of 100 (Call_returned [])" and payer = 108
      and feeType = "''storage''"
      and ?s2.0 = "demo_fees\<lparr>log := log demo_fees @ [FeeCollected 108 100 ''storage''],
                  sent := sent demo_fees @ [(108, 50)],
                  balance := balance demo_fees + 100\<rparr>"]
    collectFee_cases [where s = demo_fees and sender = 101 and msg_value = 150 and amount = 100
      and this = 100 and callee = "callee_of 100 (Call_returned [])" and payer = 100
      and feeType = "''storage''"]
  by (simp add: demo_fees_facts callee_of_def state_after_def)

text \<open>
  The balance does not grow by exactly the amount for every payer. With 150 attached and
  an amount of 100: when the payer is the ledger itself (address 100) the balance grows
  by 150, and so it does when the payer (address 108) sends the refund of 50 back to the
  ledger before it returns.
\<close>

theorem collectFee_balance_counterexample:
  "\<not> paused demo_fees \<and> hasRole demo_fees FEE_MANAGER_ROLE 101 \<and> balance demo_fees = 0
 \<and> \<not> isl (fees_exec 100 101 (CollectFee 150 (Call_returned []) 100 100 ''storage'') demo_fees)
 \<and> balance (state_after demo_fees
      (fees_exec 100 101 (CollectFee 150 (Call_returned []) 100 100 ''storage'') demo_fees)) = 150
 \<and> \<not> isl (fees_exec 100 101
             (CollectFee 150 (Call_returned [(108, Receive 50)]) 108 100 ''storage'') demo_fees)
 \<and> balance (state_after demo_fees
      (fees_exec 100 101
         (CollectFee 150 (Call_returned [(108, Receive 50)]) 108 100 ''storage'') demo_fees)) = 150"
  by (simp add: demo_fees_facts [unfolded hasRole_def] hasRole_def collectFee_def send_value_def
      receive_ether_def state_after_def emit_def Let_def)

text \<open>
  C5. In every state reached from an initialised user registry, every principal's
  \<open>usedStorage\<close> is at most its \<open>storageLimit\<close>. \<open>updateUsedStorage\<close> with a value
  above the limit fails for every caller and leaves \<open>usedStorage\<close> as it was; called by
  a verifier for a registered principal it fails with the limit-exceeded error. With a
  value within the limit, a verifier's call for a registered principal overwrites
  \<open>usedStorage\<close> with the value. \<open>updateStorageLimit\<close> with a limit below the current
  usage fails for every caller; called by an admin for a registered principal it fails
  with the below-used-storage error.
\<close>

theorem quota_never_exceeded:
  assumes "s = registry_run txs (OGRegistry_initialize deployer limit)"
  shows "usedStorage (users s user) \<le> storageLimit (users s user)
   \<and> (newUsed > storageLimit (users s user) \<longrightarrow>
        isl (updateUsedStorage sender user newUsed s)
        \<and> usedStorage (users (state_after s (updateUsedStorage sender user newUsed s)) user)
            = usedStorage (users s user))
   \<and> (hasRole s VERIFIER_ROLE sender \<and> isRegistered (users s user)
        \<and> newUsed > storageLimit (users s user) \<longrightarrow>
        updateUsedStorage sender user newUsed s = Inl Storage_limit_exceeded)
   \<and> (hasRole s VERIFIER_ROLE sender \<and> isRegistered (users s user)
        \<and> newUsed \<le> storageLimit (users s user) \<longrightarrow>
        (\<exists>s'. updateUsedStorage sender user newUsed s = Inr s'
           \<and> usedStorage (users s' user) = newUsed
           \<and> storageLimit (users s' user) = storageLimit (users s user)))
   \<and> (newLimit < usedStorage (users s user) \<longrightarrow> isl (updateStorageLimit sender user newLimit s))
   \<and> (hasRole s ADMIN_ROLE sender \<and> isRegistered (users s user)
        \<and> newLimit < usedStorage (users s user) \<longrightarrow>
        updateStorageLimit sender user newLimit s = Inl New_limit_below_used_storage)"
proof -
  have "quota_inv s"
    unfolding assms by (rule registry_run_quota) (rule registry_init_quota)
  then have inv: "usedStorage (users s user) \<le> storageLimit (users s user)"
    by (simp add: quota_inv_def)
  show ?thesis
    using inv
    by (auto simp: updateUsedStorage_def updateStorageLimit_def state_after_def emit_def)
qed

theorem quota_never_exceeded_witness:
  "usedStorage (users demo_registry 2) \<le> storageLimit (users demo_registry 2)
 \<and> updateUsedStorage 3 2 1001 demo_registry = Inl Storage_limit_exceeded
 \<and> usedStorage (users (state_after demo_registry (updateUsedStorage 3 2 1001 demo_registry)) 2) = 500
 \<and> (\<exists>s'. updateUsedStorage 3 2 700 demo_registry = Inr s' \<and> usedStorage (users s' 2) = 700)
 \<and> updateStorageLimit 1 2 499 demo_registry = Inl New_limit_below_used_storage"
  using quota_never_exceeded [OF demo_registry_def, of 2 1001 3]
    quota_never_exceeded [OF demo_registry_def, of 2 700 3]
    quota_never_exceeded [OF demo_registry_def, of 2 0 1 499]
  by (auto simp: demo_registry_facts)

text \<open>
  C6. In every state reached from an initialised file registry, for every principal and
  every identifier: the identifier is in the principal's owner index exactly when its
  record exists and is owned by that principal. When \<open>deleteFile\<close> succeeds in such a
  state, the caller was the owner, the identifier is no longer in \<open>getUserFiles\<close> of the
  owner, and \<open>getTotalFiles\<close> has gone down by exactly one.
\<close>

theorem owner_index_consistent:
  assumes "s = storage_run keccak txs (OGStorage_initialize deployer)"
  shows "(fileId \<in> set (getUserFiles s p) \<longleftrightarrow>
            exists (files s fileId) \<and> owner (files s fileId) = p)
   \<and> (deleteFile sender fileId s = Inr s' \<longrightarrow>
        owner (files s fileId) = sender
        \<and> fileId \<notin> set (getUserFiles s' sender)
        \<and> 0 < unat (getTotalFiles s)
        \<and> unat (getTotalFiles s') = unat (getTotalFiles s) - 1)"
proof -
  have inv: "owner_index_inv s"
    unfolding assms by (rule storage_run_index) (rule storage_init_index)
  then have "fileId \<in> set (getUserFiles s p) \<longleftrightarrow>
      exists (files s fileId) \<and> owner (files s fileId) = p"
    by (simp add: owner_index_inv_def getUserFiles_def)
  moreover have "owner (files s fileId) = sender
        \<and> fileId \<notin> set (getUserFiles s' sender)
        \<and> 0 < unat (getTotalFiles s)
        \<and> unat (getTotalFiles s') = unat (getTotalFiles s) - 1"
    if d: "deleteFile sender fileId s = Inr s'"
    using deleteFile_index [OF inv d] deleteFile_Inr(2) [OF d] by simp
  ultimately show ?thesis by blast
qed

theorem owner_index_consistent_witness:
  "1003 \<in> set (getUserFiles demo_storage 1)
 \<and> exists (files demo_storage 1003) \<and> owner (files demo_storage 1003) = 1
 \<and> deleteFile 1 1003 demo_storage = Inr demo_deleted
 \<and> 1003 \<notin> set (getUserFiles demo_deleted 1)
 \<and> unat (getTotalFiles demo_storage) = 1 \<and> unat (getTotalFiles demo_deleted) = 0"
  using owner_index_consistent [OF demo_storage_def, of 1003 1 1 demo_deleted] demo_delete
  by (simp add: demo_storage_facts demo_storage_more getTotalFiles_def)

text \<open>
  C7. For every identifier and every principal \<open>p\<close>, \<open>hasAccess\<close> is false when the record
  does not exist, and otherwise true exactly when \<open>p\<close> is the record's owner or is in its
  \<open>sharedWith\<close> set. It is a view: it returns a boolean and no state, and its answer does
  not depend on the pause switch or on the role assignment.
\<close>

theorem hasAccess_spec:
  "(\<not> exists (files s fileId) \<longrightarrow> hasAccess s fileId p = False)
 \<and> (exists (files s fileId) \<longrightarrow>
      hasAccess s fileId p = (p = owner (files s fileId) \<or> sharedWith (files s fileId) p))
 \<and> hasAccess (s\<lparr>paused := b, roles := r\<rparr>) fileId p = hasAccess s fileId p"
  by (auto simp: hasAccess_def)

theorem hasAccess_spec_witness:
  "\<not> exists (files demo_storage 5) \<and> hasAccess demo_storage 5 2 = False
 \<and> exists (files demo_storage 1003) \<and> hasAccess demo_storage 1003 2 = True
 \<and> hasAccess demo_storage 1003 3 = False \<and> hasAccess demo_storage 1003 1 = True"
  using hasAccess_spec [of demo_storage 5 2] hasAccess_spec [of demo_storage 1003 2]
    hasAccess_spec [of demo_storage 1003 3] hasAccess_spec [of demo_storage 1003 1]
  by (simp add: demo_storage_facts)

text \<open>
  C8. \<open>calculateStorageFee\<close> computes \<open>size * baseStorageFee + networkFee\<close> in checked
  256-bit arithmetic. As long as that quantity is below \<open>2 ^ 256\<close> the call returns it
  when it is at least \<open>minimumFee\<close>, and \<open>minimumFee\<close> otherwise, so the result is never
  below \<open>minimumFee\<close>. For every other size the call reverts with an arithmetic panic and
  returns no fee.
\<close>

theorem calculateStorageFee_checked:
  "(unat sz * unat (baseStorageFee (feeConfig s)) + unat (networkFee (feeConfig s)) < 2 ^ 256 \<longrightarrow>
      (\<exists>fee. calculateStorageFee s sz = Inr fee
         \<and> unat fee =
             (if unat sz * unat (baseStorageFee (feeConfig s)) + unat (networkFee (feeConfig s))
                   \<ge> unat (minimumFee (feeConfig s))
              then unat sz * unat (baseStorageFee (feeConfig s)) + unat (networkFee (feeConfig s))
              else unat (minimumFee (feeConfig s)))
         \<and> fee \<ge> minimumFee (feeConfig s)))
 \<and> (\<not> unat sz * unat (baseStorageFee (feeConfig s)) + unat (networkFee (feeConfig s)) < 2 ^ 256 \<longrightarrow>
      calculateStorageFee s sz = Inl Panic_arithmetic)"
proof (intro conjI impI)
  assume fits: "unat sz * unat (baseStorageFee (feeConfig s)) + unat (networkFee (feeConfig s)) < 2 ^ 256"
  from calc_ok [OF fits] obtain fee where
    fee: "calculateStorageFee s sz = Inr fee"
      "unat fee = max (unat sz * unat (baseStorageFee (feeConfig s)) + unat (networkFee (feeConfig s)))
                      (unat (minimumFee (feeConfig s)))"
    by blast
  have "fee \<ge> minimumFee (feeConfig s)" using fee(2) by (simp add: word_le_nat_alt)
  then show "\<exists>fee. calculateStorageFee s sz = Inr fee
         \<and> unat fee =
             (if unat sz * unat (baseStorageFee (feeConfig s)) + unat (networkFee (feeConfig s))
                   \<ge> unat (minimumFee (feeConfig s))
              then unat sz * unat (baseStorageFee (feeConfig s)) + unat (networkFee (feeConfig s))
              else unat (minimumFee (feeConfig s)))
         \<and> fee \<ge> minimumFee (feeConfig s)"
    using fee by (auto simp: max_def)
next
  assume "\<not> unat sz * unat (baseStorageFee (feeConfig s)) + unat (networkFee (feeConfig s)) < 2 ^ 256"
  then show "calculateStorageFee s sz = Inl Panic_arithmetic" by (rule calc_overflow)
qed

theorem calculateStorageFee_checked_witness:
  "calculateStorageFee demo_fees 10 = Inr 100 \<and> calculateStorageFee demo_fees 100 = Inr 205
 \<and> calculateStorageFee demo_fees 0x8000000000000000000000000000000000000000000000000000000000000000
      = Inl Panic_arithmetic"
proof (intro conjI)
  from calculateStorageFee_checked [of 10 demo_fees]
  obtain fee where "calculateStorageFee demo_fees 10 = Inr fee" "unat fee = 100"
    by (auto simp: demo_fees_facts)
  then show "calculateStorageFee demo_fees 10 = Inr 100"
    using unat_eq_numeralD [of fee 100] by simp
next
  from calculateStorageFee_checked [of 100 demo_fees]
  obtain fee where "calculateStorageFee demo_fees 100 = Inr fee" "unat fee = 205"
    by (auto simp: demo_fees_facts)
  then show "calculateStorageFee demo_fees 100 = Inr 205"
    using unat_eq_numeralD [of fee 205] by simp
next
  show "calculateStorageFee demo_fees 0x8000000000000000000000000000000000000000000000000000000000000000
      = Inl Panic_arithmetic"
    using calculateStorageFee_checked
        [of "0x8000000000000000000000000000000000000000000000000000000000000000" demo_fees]
    by (simp add: demo_fees_facts)
qed

text \<open>
  The statement for every size fails: with \<open>baseStorageFee = 2\<close> and the size \<open>2 ^ 255\<close>
  the product overflows and the call reverts.
\<close>

theorem calculateStorageFee_overflow_counterexample:
  "OGFees_initialize 101 109 2 5 1 100 50 = Inr (projr (OGFees_initialize 101 109 2 5 1 100 50))
 \<and> demo_fees = fees_run 100 [(101, AddDiscountedUser 107)] (projr (OGFees_initialize 101 109 2 5 1 100 50))
 \<and> calculateStorageFee demo_fees 0x8000000000000000000000000000000000000000000000000000000000000000
      = Inl Panic_arithmetic"
proof (intro conjI)
  show "OGFees_initialize 101 109 2 5 1 100 50 = Inr (projr (OGFees_initialize 101 109 2 5 1 100 50))"
    by (simp add: OGFees_initialize_def)
  show "demo_fees = fees_run 100 [(101, AddDiscountedUser 107)] (projr (OGFees_initialize 101 109 2 5 1 100 50))"
    by (fact demo_fees_def)
  show "calculateStorageFee demo_fees 0x8000000000000000000000000000000000000000000000000000000000000000
      = Inl Panic_arithmetic"
    by (simp add: calculateStorageFee_def checked_mul_def demo_fees_facts)
qed

text \<open>
  C9. In every state reached from an initialised fee ledger the discount percentage is at
  most 100. \<open>applyDiscount\<close> returns the amount unchanged for a principal that is not
  discounted. For a discounted principal it computes \<open>amount * discountPercentage\<close> in
  checked 256-bit arithmetic: while the product is below \<open>2 ^ 256\<close> it returns
  \<open>amount - floor (amount * discountPercentage / 100)\<close>, and otherwise the call reverts
  with an arithmetic panic.
\<close>

theorem applyDiscount_checked:
  assumes "OGFees_initialize deployer t b n sh m pct = Inr s0" and "s = fees_run this txs s0"
  shows "discountPercentage s \<le> 100
   \<and> (\<not> discountedUsers s p \<longrightarrow> applyDiscount s p amount = Inr amount)
   \<and> (discountedUsers s p \<and> unat amount * unat (discountPercentage s) < 2 ^ 256 \<longrightarrow>
        applyDiscount s p amount = Inr (amount - (amount * discountPercentage s) div 100)
        \<and> unat (amount - (amount * discountPercentage s) div 100)
            = unat amount - unat amount * unat (discountPercentage s) div 100)
   \<and> (discountedUsers s p \<and> \<not> unat amount * unat (discountPercentage s) < 2 ^ 256 \<longrightarrow>
        applyDiscount s p amount = Inl Panic_arithmetic)"
proof -
  have pct: "discountPercentage s \<le> 100"
    unfolding assms(2) by (rule fees_run_pct) (rule init_pct [OF assms(1)])
  show ?thesis
    using pct applyDiscount_ok [of s p amount] applyDiscount_overflow [of s p amount]
      discount_le(2) [of "discountPercentage s" amount]
    by (auto simp: applyDiscount_def)
qed

theorem applyDiscount_checked_witness:
  "OGFees_initialize 101 109 2 5 1 100 50 = Inr (projr (OGFees_initialize 101 109 2 5 1 100 50))
 \<and> demo_fees = fees_run 100 [(101, AddDiscountedUser 107)] (projr (OGFees_initialize 101 109 2 5 1 100 50))
 \<and> discountPercentage demo_fees = 50
 \<and> \<not> discountedUsers demo_fees 108 \<and> applyDiscount demo_fees 108 101 = Inr 101
 \<and> discountedUsers demo_fees 107 \<and> applyDiscount demo_fees 107 101 = Inr 51
 \<and> applyDiscount demo_fees 107 0x8000000000000000000000000000000000000000000000000000000000000000
      = Inl Panic_arithmetic"
  using applyDiscount_checked [OF demo_fees_init demo_fees_def, of 108 101]
    applyDiscount_checked [OF demo_fees_init demo_fees_def, of 107 101]
    applyDiscount_checked [OF demo_fees_init demo_fees_def, of 107
      "0x8000000000000000000000000000000000000000000000000000000000000000"]
    demo_fees_init demo_fees_def
  by (simp add: demo_fees_facts)

text \<open>
  The statement for every amount fails: for a discounted principal, a percentage of 50
  and the amount \<open>2 ^ 255\<close> the product overflows and the call reverts, where the claim
  promises \<open>2 ^ 254\<close>.
\<close>

theorem applyDiscount_overflow_counterexample:
  "OGFees_initialize 101 109 2 5 1 100 50 = Inr (projr (OGFees_initialize 101 109 2 5 1 100 50))
 \<and> demo_fees = fees_run 100 [(101, AddDiscountedUser 107)] (projr (OGFees_initialize 101 109 2 5 1 100 50))
 \<and> discountedUsers demo_fees 107 \<and> discountPercentage demo_fees = 50
 \<and> applyDiscount demo_fees 107 0x8000000000000000000000000000000000000000000000000000000000000000
      = Inl Panic_arithmetic"
proof (intro conjI)
  show "OGFees_initialize 101 109 2 5 1 100 50 = Inr (projr (OGFees_initialize 101 109 2 5 1 100 50))"
    by (rule demo_fees_init)
  show "demo_fees = fees_run 100 [(101, AddDiscountedUser 107)] (projr (OGFees_initialize 101 109 2 5 1 100 50))"
    by (fact demo_fees_def)
  show "discountedUsers demo_fees 107" "discountPercentage demo_fees = 50"
    by (simp_all add: demo_fees_facts)
  show "applyDiscount demo_fees 107 0x8000000000000000000000000000000000000000000000000000000000000000
      = Inl Panic_arithmetic"
    by (simp add: applyDiscount_def checked_mul_def demo_fees_facts)
qed




end
